theory Spec2Isabelle
  imports Complex_Main "HOL-Library.Word"
begin

unbundle bit_operations_syntax

section \<open>Coordinate mapping\<close>

text \<open>
  The C++ type \<^verbatim>\<open>int\<close> of the target is a 32-bit two's complement integer.  It is
  modelled as \<^typ>\<open>32 word\<close>, read as a signed value with \<^term>\<open>sint\<close>.
  \<^verbatim>\<open>global & 0b111\<close> is the bitwise conjunction with 7 and \<^verbatim>\<open>global >> 3\<close> the
  arithmetic shift (the sign bit is replicated).
\<close>

type_synonym cint = "32 word"

definition getLocal :: "cint \<Rightarrow> cint" where
  "getLocal global = global AND 7"

definition getChunk :: "cint \<Rightarrow> cint" where
  "getChunk global = signed_drop_bit 3 global"

section \<open>Data model\<close>

text \<open>
  \<^verbatim>\<open>BLOCK_WDATA\<close> is a block id with its auxiliary data, a 16-bit value.  A
  \<^verbatim>\<open>BLOCK_CHANGE\<close> is the record pushed by \<^verbatim>\<open>setBlock\<close> and \<^verbatim>\<open>changeBlock\<close>:
  \<^verbatim>\<open>{chunk_x, chunk_y, chunk_z, local_x, local_y, local_z, block}\<close>.
\<close>

type_synonym byte = "8 word"
type_synonym BLOCK_WDATA = "16 word"

record BLOCK_CHANGE =
  chunk_x :: cint
  chunk_y :: cint
  chunk_z :: cint
  local_x :: cint
  local_y :: cint
  local_z :: cint
  block :: BLOCK_WDATA

text \<open>
  A \<^verbatim>\<open>Chunk\<close> is used by the World through its public coordinates \<^verbatim>\<open>x, y, z\<close>
  (immutable) and its member functions only.  Everything else a chunk holds (blocks,
  dirty flag, mesh) is the opaque component \<open>Chunk_state\<close>.
\<close>

record 'b Chunk =
  Chunk_x :: cint
  Chunk_y :: cint
  Chunk_z :: cint
  Chunk_state :: 'b

text \<open>
  \<^verbatim>\<open>Chunk *\<close> values are addresses into an explicit store of chunk objects:
  \<^verbatim>\<open>new Chunk\<close> extends the store by one cell, \<^verbatim>\<open>delete\<close> empties a cell, and an address
  whose cell is empty or beyond the store is a dangling pointer.  \<open>all_chunks\<close> is the
  owning registry, \<open>visible_chunks\<close> the non-owning list; both are
  \<^verbatim>\<open>std::vector<Chunk*>\<close>.  \<open>seed\<close> is the value behind the \<^verbatim>\<open>unsigned int *seed\<close>,
  \<open>perlin_noise\<close> the seed last given to the noise generator.
\<close>

type_synonym addr = nat

record 'b World =
  seed :: "32 word"
  perlin_noise :: "32 word"
  store :: "'b Chunk option list"
  all_chunks :: "addr list"
  visible_chunks :: "addr list"
  pending_block_changes :: "BLOCK_CHANGE list"
  field_of_view :: cint
  loaded :: bool
  cen_x :: cint
  cen_y :: cint
  cen_z :: cint

text \<open>
  A \<^verbatim>\<open>FILE\<close> opened for reading is the sequence of bytes not yet read and the
  end-of-file indicator tested by \<^verbatim>\<open>feof\<close>.  \<^verbatim>\<open>fread(ptr, size, n, file)\<close> transfers
  up to \<open>size * n\<close> bytes and returns the number of complete items; the indicator is
  set when the request runs past the last byte, and only then: a request that ends
  exactly on the last byte leaves it clear.  Read errors other than the end of the
  stream are not modelled.
\<close>

record FILE =
  content :: "byte list"
  eof :: bool

definition fread :: "nat \<Rightarrow> nat \<Rightarrow> FILE \<Rightarrow> byte list \<times> nat \<times> FILE" where
  "fread sz n f =
     (let want = sz * n; got = take want (content f)
      in (got, if sz = 0 then 0 else length got div sz,
          \<lparr>content = drop want (content f), eof = eof f \<or> length got < want\<rparr>))"

text \<open>
  A \<^verbatim>\<open>FILE\<close> opened for writing is the bytes written so far and the room left on the
  device; \<^verbatim>\<open>fwrite\<close> comes up short when the room is used up.
\<close>

record OFILE =
  written :: "byte list"
  room :: nat

definition fwrite :: "byte list \<Rightarrow> nat \<Rightarrow> nat \<Rightarrow> OFILE \<Rightarrow> nat \<times> OFILE" where
  "fwrite bs sz n out =
     (let want = sz * n in
      if want \<le> room out
      then (n, \<lparr>written = written out @ take want bs, room = room out - want\<rparr>)
      else (if sz = 0 then 0 else room out div sz,
            \<lparr>written = written out @ take (room out) bs, room = 0\<rparr>))"

text \<open>
  The collaborators of \<^verbatim>\<open>world.cpp\<close> that are declared in headers outside the
  sources: the constants \<^verbatim>\<open>World::HEIGHT\<close>, \<^verbatim>\<open>BLOCK_AIR\<close>, \<^verbatim>\<open>BLOCK_STONE\<close>, the
  conversion \<^verbatim>\<open>(GLFix(v) / BLOCK_SIZE).floor()\<close> of a position to block units, and the
  member functions of \<^verbatim>\<open>Chunk\<close> and of the block renderer.  They are parameters of the
  model.  A member function of a chunk receives the chunk and returns its new opaque
  state; the functions that consult the world (the parent pointer) receive it for
  reading.  \<open>Chunk_loadFromFile\<close> receives the unread bytes of the stream and returns
  its success, the new state, how many bytes it consumed and whether it ran into the end
  of the stream; \<open>Chunk_saveToFile\<close> receives the output stream.  \<open>resize_limit\<close> is
  the largest number of records to which \<^verbatim>\<open>pending_block_changes.resize\<close> can grow the
  vector: at most its \<^verbatim>\<open>max_size()\<close>, less when memory is short.
\<close>

record 'b env =
  HEIGHT :: cint
  BLOCK_AIR :: BLOCK_WDATA
  BLOCK_STONE :: BLOCK_WDATA
  toBlockCoord :: "cint \<Rightarrow> cint"
  Chunk_new :: "cint \<Rightarrow> cint \<Rightarrow> cint \<Rightarrow> 'b"
  Chunk_generate :: "'b World \<Rightarrow> 'b Chunk \<Rightarrow> 'b"
  Chunk_getLocalBlock :: "'b Chunk \<Rightarrow> cint \<Rightarrow> cint \<Rightarrow> cint \<Rightarrow> BLOCK_WDATA"
  Chunk_setLocalBlock :: "'b Chunk \<Rightarrow> cint \<Rightarrow> cint \<Rightarrow> cint \<Rightarrow> BLOCK_WDATA \<Rightarrow> 'b"
  Chunk_changeLocalBlock :: "'b Chunk \<Rightarrow> cint \<Rightarrow> cint \<Rightarrow> cint \<Rightarrow> BLOCK_WDATA \<Rightarrow> 'b"
  Chunk_setDirty :: "'b Chunk \<Rightarrow> 'b"
  Chunk_logic :: "'b World \<Rightarrow> 'b Chunk \<Rightarrow> 'b"
  Chunk_render :: "'b World \<Rightarrow> 'b Chunk \<Rightarrow> 'b"
  BlockRenderer_action :: "BLOCK_WDATA \<Rightarrow> cint \<Rightarrow> cint \<Rightarrow> cint \<Rightarrow> 'b Chunk \<Rightarrow> bool \<times> 'b"
  Chunk_loadFromFile :: "'b Chunk \<Rightarrow> byte list \<Rightarrow> bool \<times> 'b \<times> nat \<times> bool"
  Chunk_saveToFile :: "'b Chunk \<Rightarrow> OFILE \<Rightarrow> bool \<times> OFILE"
  resize_limit :: nat

section \<open>The store of chunk objects\<close>

definition deref :: "'b World \<Rightarrow> addr \<Rightarrow> 'b Chunk option" where
  "deref w p = (if p < length (store w) then store w ! p else None)"

definition new_Chunk :: "'b Chunk \<Rightarrow> 'b World \<Rightarrow> 'b World \<times> addr" where
  "new_Chunk c w = (w\<lparr>store := store w @ [Some c]\<rparr>, length (store w))"

definition delete_Chunk :: "addr \<Rightarrow> 'b World \<Rightarrow> 'b World" where
  "delete_Chunk p w = w\<lparr>store := (store w)[p := None]\<rparr>"

definition assign :: "addr \<Rightarrow> 'b Chunk \<Rightarrow> 'b World \<Rightarrow> 'b World" where
  "assign p c w = w\<lparr>store := (store w)[p := Some c]\<rparr>"

section \<open>Chunk lookup and block access\<close>

text \<open>
  \<^verbatim>\<open>findChunk\<close> walks \<open>all_chunks\<close> in order and returns the first pointer whose
  chunk has the coordinates asked for, here together with the object it points to.
  The registry owns its chunks, so its pointers are live in every world the operations
  can build (\<open>reachable_registry_ok\<close> below); a dead cell is passed over.
\<close>

fun findIn :: "'b World \<Rightarrow> cint \<Rightarrow> cint \<Rightarrow> cint \<Rightarrow> addr list \<Rightarrow> (addr \<times> 'b Chunk) option" where
  "findIn w x y z [] = None"
| "findIn w x y z (p # ps) =
     (case deref w p of
        Some c \<Rightarrow> if Chunk_x c = x \<and> Chunk_y c = y \<and> Chunk_z c = z then Some (p, c)
                  else findIn w x y z ps
      | None \<Rightarrow> findIn w x y z ps)"

definition findChunk :: "'b World \<Rightarrow> cint \<Rightarrow> cint \<Rightarrow> cint \<Rightarrow> (addr \<times> 'b Chunk) option" where
  "findChunk w x y z = findIn w x y z (all_chunks w)"

definition getBlock :: "'b env \<Rightarrow> 'b World \<Rightarrow> cint \<Rightarrow> cint \<Rightarrow> cint \<Rightarrow> BLOCK_WDATA" where
  "getBlock e w x y z =
     (let cx = getChunk x; cy = getChunk y; cz = getChunk z in
      case findChunk w cx cy cz of
        None \<Rightarrow> if cy = HEIGHT e then BLOCK_AIR e else BLOCK_STONE e
      | Some (p, c) \<Rightarrow> Chunk_getLocalBlock e c (getLocal x) (getLocal y) (getLocal z))"

definition setBlock :: "'b env \<Rightarrow> cint \<Rightarrow> cint \<Rightarrow> cint \<Rightarrow> BLOCK_WDATA \<Rightarrow> 'b World \<Rightarrow> 'b World" where
  "setBlock e x y z blk w =
     (let cx = getChunk x; cy = getChunk y; cz = getChunk z;
          lx = getLocal x; ly = getLocal y; lz = getLocal z in
      case findChunk w cx cy cz of
        Some (p, c) \<Rightarrow> assign p (c\<lparr>Chunk_state := Chunk_setLocalBlock e c lx ly lz blk\<rparr>) w
      | None \<Rightarrow> w\<lparr>pending_block_changes := pending_block_changes w @
          [\<lparr>chunk_x = cx, chunk_y = cy, chunk_z = cz,
            local_x = lx, local_y = ly, local_z = lz, block = blk\<rparr>]\<rparr>)"

definition changeBlock :: "'b env \<Rightarrow> cint \<Rightarrow> cint \<Rightarrow> cint \<Rightarrow> BLOCK_WDATA \<Rightarrow> 'b World \<Rightarrow> 'b World" where
  "changeBlock e x y z blk w =
     (let cx = getChunk x; cy = getChunk y; cz = getChunk z;
          lx = getLocal x; ly = getLocal y; lz = getLocal z in
      case findChunk w cx cy cz of
        Some (p, c) \<Rightarrow> assign p (c\<lparr>Chunk_state := Chunk_changeLocalBlock e c lx ly lz blk\<rparr>) w
      | None \<Rightarrow> w\<lparr>pending_block_changes := pending_block_changes w @
          [\<lparr>chunk_x = cx, chunk_y = cy, chunk_z = cz,
            local_x = lx, local_y = ly, local_z = lz, block = blk\<rparr>]\<rparr>)"

definition blockAction :: "'b env \<Rightarrow> cint \<Rightarrow> cint \<Rightarrow> cint \<Rightarrow> 'b World \<Rightarrow> bool \<times> 'b World" where
  "blockAction e x y z w =
     (let cx = getChunk x; cy = getChunk y; cz = getChunk z;
          lx = getLocal x; ly = getLocal y; lz = getLocal z in
      case findChunk w cx cy cz of
        None \<Rightarrow> (False, w)
      | Some (p, c) \<Rightarrow>
          (let (r, b) = BlockRenderer_action e (Chunk_getLocalBlock e c lx ly lz) lx ly lz c
           in (r, assign p (c\<lparr>Chunk_state := b\<rparr>) w)))"

section \<open>Generation\<close>

text \<open>
  One of the six \<^verbatim>\<open>if(Chunk *c = findChunk(...)) c->setDirty();\<close> statements.
\<close>

definition setDirtyAt :: "'b env \<Rightarrow> cint \<Rightarrow> cint \<Rightarrow> cint \<Rightarrow> 'b World \<Rightarrow> 'b World" where
  "setDirtyAt e x y z w =
     (case findChunk w x y z of
        Some (p, c) \<Rightarrow> assign p (c\<lparr>Chunk_state := Chunk_setDirty e c\<rparr>) w
      | None \<Rightarrow> w)"

text \<open>
  The loop over \<open>pending_block_changes\<close> with its iterator: an entry for the new chunk
  is applied with \<^verbatim>\<open>setLocalBlock\<close> and erased, any other entry is stepped over.  The
  function returns the chunk and the entries left in the vector.
\<close>

definition targets :: "'b Chunk \<Rightarrow> BLOCK_CHANGE \<Rightarrow> bool" where
  "targets c bc = (Chunk_x c = chunk_x bc \<and> Chunk_y c = chunk_y bc \<and> Chunk_z c = chunk_z bc)"

definition applyChange :: "'b env \<Rightarrow> BLOCK_CHANGE \<Rightarrow> 'b Chunk \<Rightarrow> 'b Chunk" where
  "applyChange e bc c =
     c\<lparr>Chunk_state := Chunk_setLocalBlock e c (local_x bc) (local_y bc) (local_z bc) (block bc)\<rparr>"

fun drainPending :: "'b env \<Rightarrow> 'b Chunk \<Rightarrow> BLOCK_CHANGE list \<Rightarrow> 'b Chunk \<times> BLOCK_CHANGE list" where
  "drainPending e c [] = (c, [])"
| "drainPending e c (bc # rest) =
     (if targets c bc then drainPending e (applyChange e bc c) rest
      else (let (c', kept) = drainPending e c rest in (c', bc # kept)))"

definition generateChunk :: "'b env \<Rightarrow> cint \<Rightarrow> cint \<Rightarrow> cint \<Rightarrow> 'b World \<Rightarrow> 'b World \<times> addr" where
  "generateChunk e x y z w =
     (let w1 = setDirtyAt e (x - 1) y z w;
          w2 = setDirtyAt e (x + 1) y z w1;
          w3 = setDirtyAt e x (y - 1) z w2;
          w4 = setDirtyAt e x (y + 1) z w3;
          w5 = setDirtyAt e x y (z - 1) w4;
          w6 = setDirtyAt e x y (z + 1) w5;
          c0 = \<lparr>Chunk_x = x, Chunk_y = y, Chunk_z = z, Chunk_state = Chunk_new e x y z\<rparr>;
          (w7, p) = new_Chunk c0 w6;
          c1 = c0\<lparr>Chunk_state := Chunk_generate e w7 c0\<rparr>;
          w8 = (assign p c1 w7)\<lparr>all_chunks := all_chunks w7 @ [p]\<rparr>;
          (c2, kept) = drainPending e c1 (pending_block_changes w8)
      in ((assign p c2 w8)\<lparr>pending_block_changes := kept\<rparr>, p))"

definition setChunkVisible :: "'b env \<Rightarrow> cint \<Rightarrow> cint \<Rightarrow> cint \<Rightarrow> 'b World \<Rightarrow> 'b World" where
  "setChunkVisible e x y z w =
     (let (w', p) = (case findChunk w x y z of
                       Some (p, c) \<Rightarrow> (w, p)
                     | None \<Rightarrow> generateChunk e x y z w)
      in w'\<lparr>visible_chunks := visible_chunks w' @ [p]\<rparr>)"

section \<open>Visibility selection\<close>

text \<open>
  \<^verbatim>\<open>std::max\<close> and \<^verbatim>\<open>std::min\<close> on \<^verbatim>\<open>int\<close>: \<^verbatim>\<open>max(a, b)\<close> is \<^verbatim>\<open>(a < b) ? b : a\<close> and
  \<^verbatim>\<open>min(a, b)\<close> is \<^verbatim>\<open>(b < a) ? b : a\<close>, with the signed comparison.
\<close>

definition std_max :: "cint \<Rightarrow> cint \<Rightarrow> cint" where
  "std_max a b = (if sint a < sint b then b else a)"

definition std_min :: "cint \<Rightarrow> cint \<Rightarrow> cint" where
  "std_min a b = (if sint b < sint a then b else a)"

text \<open>
  \<^verbatim>\<open>round(sqrt(n))\<close> for an \<^verbatim>\<open>int\<close> argument.  The integer square root is found by
  counting up; the rounded root is the next integer when \<open>n\<close> lies above
  \<open>r\<^sup>2 + r\<close>, since \<open>(r + 1/2)\<^sup>2 = r\<^sup>2 + r + 1/4\<close>.  Lemma \<open>round_sqrt_real\<close> relates it to
  the square root of the reals.
\<close>

function sqrt_from :: "int \<Rightarrow> int \<Rightarrow> int" where
  "sqrt_from n r = (if 0 \<le> r \<and> (r + 1) * (r + 1) \<le> n then sqrt_from n (r + 1) else r)"
  by pat_completeness auto
termination
proof (relation "measure (\<lambda>(n, r). nat (n - r))")
  show "wf (measure (\<lambda>(n, r). nat (n - r)))" by simp
next
  fix n r :: int
  assume a: "0 \<le> r \<and> (r + 1) * (r + 1) \<le> n"
  then have "r + 1 \<le> (r + 1) * (r + 1)"
    by (intro mult_le_cancel_left1 [THEN iffD2]) auto
  with a have "r + 1 \<le> n" by linarith
  then show "((n, r + 1), (n, r)) \<in> measure (\<lambda>(n, r). nat (n - r))" by simp
qed

declare sqrt_from.simps [simp del]

definition round_sqrt :: "int \<Rightarrow> int" where
  "round_sqrt n = (let r = sqrt_from n 0 in if n - r * r \<le> r then r else r + 1)"

text \<open>
  The offsets visited by the three nested iterations
  \<^verbatim>\<open>for(x = -dist; x <= dist; ++x) for(y ...) for(z ...)\<close>, in the order of the visit.
\<close>

definition offsets :: "int \<Rightarrow> (int \<times> int \<times> int) list" where
  "offsets d =
     concat (map (\<lambda>x. concat (map (\<lambda>y. map (\<lambda>z. (x, y, z)) [- d..d]) [- d..d]))
       [- d..d])"

text \<open>
  The body of the innermost loop.  The loop counters are mathematical integers: the
  model agrees with the 32-bit arithmetic of the source as long as
  \<^verbatim>\<open>x*x + y*y + z*z\<close> does not overflow, that is for a view radius up to 26754.
\<close>

definition visit :: "'b env \<Rightarrow> cint \<Rightarrow> cint \<Rightarrow> cint \<Rightarrow> int \<Rightarrow> int \<times> int \<times> int \<Rightarrow> 'b World \<Rightarrow> 'b World" where
  "visit e cx cy cz d xyz w =
     (case xyz of (x, y, z) \<Rightarrow>
        if sint cy + y < 0 \<or> sint cy + y \<ge> sint (HEIGHT e) \<or> round_sqrt (x * x + y * y + z * z) \<noteq> d
        then w
        else setChunkVisible e (cx + word_of_int x) (cy + word_of_int y) (cz + word_of_int z) w)"

definition shell :: "'b env \<Rightarrow> cint \<Rightarrow> cint \<Rightarrow> cint \<Rightarrow> int \<Rightarrow> 'b World \<Rightarrow> 'b World" where
  "shell e cx cy cz d w = fold (visit e cx cy cz d) (offsets d) w"

definition setPosition :: "'b env \<Rightarrow> cint \<Rightarrow> cint \<Rightarrow> cint \<Rightarrow> 'b World \<Rightarrow> 'b World" where
  "setPosition e x y z w =
     (let cx = getChunk (toBlockCoord e x);
          cy0 = getChunk (toBlockCoord e y);
          cz = getChunk (toBlockCoord e z);
          cy = std_max 0 (std_min cy0 (HEIGHT e - 1))
      in if \<not> loaded w \<or> (cx \<noteq> cen_x w \<or> cy \<noteq> cen_y w \<or> cz \<noteq> cen_z w) then
           (let w1 = w\<lparr>visible_chunks := []\<rparr>;
                w2 = setChunkVisible e cx cy cz w1;
                w3 = fold (shell e cx cy cz) [1..sint (field_of_view w2)] w2
            in w3\<lparr>cen_x := cx, cen_y := cy, cen_z := cz, loaded := True\<rparr>)
         else w)"

section \<open>Reset, seed and rendering\<close>

definition clear :: "'b World \<Rightarrow> 'b World" where
  "clear w = (fold delete_Chunk (all_chunks w) w)\<lparr>all_chunks := [], visible_chunks := [], loaded := False\<rparr>"

text \<open>
  \<^verbatim>\<open>generateSeed\<close> allocates the seed and never writes it: the value read back is
  whatever the allocator returned, the argument \<open>v\<close>.
\<close>

definition generateSeed :: "32 word \<Rightarrow> 'b World \<Rightarrow> 'b World" where
  "generateSeed v w = w\<lparr>seed := v, perlin_noise := v\<rparr>"

text \<open>
  \<^verbatim>\<open>render\<close> calls \<^verbatim>\<open>logic\<close> and then \<^verbatim>\<open>render\<close> on every visible chunk.  Going through a
  dangling pointer is undefined behaviour: the result is \<open>None\<close>.
\<close>

fun forVisible :: "('b World \<Rightarrow> 'b Chunk \<Rightarrow> 'b) \<Rightarrow> addr list \<Rightarrow> 'b World \<Rightarrow> 'b World option" where
  "forVisible f [] w = Some w"
| "forVisible f (p # ps) w =
     (case deref w p of
        None \<Rightarrow> None
      | Some c \<Rightarrow> forVisible f ps (assign p (c\<lparr>Chunk_state := f w c\<rparr>) w))"

definition render :: "'b env \<Rightarrow> 'b World \<Rightarrow> 'b World option" where
  "render e w =
     (case forVisible (Chunk_logic e) (visible_chunks w) w of
        None \<Rightarrow> None
      | Some w1 \<Rightarrow> forVisible (Chunk_render e) (visible_chunks w1) w1)"

section \<open>Ray intersection\<close>

text \<open>
  \<^verbatim>\<open>GLFix\<close>, \<^verbatim>\<open>Position\<close> and \<^verbatim>\<open>AABB::SIDE\<close> come from headers outside the sources.
  The distance type \<open>'d\<close> is only compared, so it is any linear order with the
  constant \<^verbatim>\<open>GLFix::maxValue()\<close>; \<open>'g\<close> is the type of a coordinate of a
  \<^verbatim>\<open>Position\<close>, with the addition \<open>plus_int\<close> of an \<^verbatim>\<open>int\<close> used in
  \<^verbatim>\<open>pos.x + c->x*Chunk::SIZE\<close>; the ray itself (six \<^verbatim>\<open>GLFix\<close> arguments) is handed
  through to the chunk as a value of type \<open>'r\<close>.  \<^verbatim>\<open>Chunk::intersectsRay\<close> receives the
  variable \<^verbatim>\<open>pos\<close> shared by all iterations and returns its result, the distance, the
  new \<^verbatim>\<open>pos\<close> and the side.
\<close>

record 'g Position =
  Position_x :: 'g
  Position_y :: 'g
  Position_z :: 'g

record ('b, 'r, 'd, 'g, 's) ray_env =
  GLFix_maxValue :: 'd
  plus_int :: "'g \<Rightarrow> cint \<Rightarrow> 'g"
  Chunk_intersectsRay :: "'b Chunk \<Rightarrow> 'r \<Rightarrow> 'g Position \<Rightarrow> bool \<times> 'd \<times> 'g Position \<times> 's"

definition toWorld :: "('b, 'r, 'd, 'g, 's) ray_env \<Rightarrow> 'b Chunk \<Rightarrow> 'g Position \<Rightarrow> 'g Position" where
  "toWorld re c pos =
     \<lparr>Position_x = plus_int re (Position_x pos) (Chunk_x c * 8),
      Position_y = plus_int re (Position_y pos) (Chunk_y c * 8),
      Position_z = plus_int re (Position_z pos) (Chunk_z c * 8)\<rparr>"

text \<open>
  The loop of \<^verbatim>\<open>intersectsRay\<close> over the visible chunks; its state is
  \<^verbatim>\<open>shortest_dist\<close>, \<^verbatim>\<open>pos\<close>, \<^verbatim>\<open>result\<close> and \<^verbatim>\<open>side\<close>.  Going through a dangling pointer
  is undefined behaviour: the result is \<open>None\<close>.
\<close>

fun rayLoop :: "('b::type, 'r, 'd::linorder, 'g, 's) ray_env \<Rightarrow> 'b World \<Rightarrow> 'r \<Rightarrow> addr list \<Rightarrow>
    'd \<times> 'g Position \<times> 'g Position \<times> 's \<Rightarrow> ('d \<times> 'g Position \<times> 'g Position \<times> 's) option" where
  "rayLoop re w ray [] st = Some st"
| "rayLoop re w ray (p # ps) (shortest, pos, result, side) =
     (case deref w p of
        None \<Rightarrow> None
      | Some c \<Rightarrow>
          (case Chunk_intersectsRay re c ray pos of
             (hit, new_d, pos', new_side) \<Rightarrow>
               if hit then
                 if new_d > shortest then rayLoop re w ray ps (shortest, pos', result, side)
                 else rayLoop re w ray ps (new_d, pos', toWorld re c pos', new_side)
               else rayLoop re w ray ps (shortest, pos', result, side)))"

definition intersectsRay :: "('b::type, 'r, 'd::linorder, 'g, 's) ray_env \<Rightarrow> 'b World \<Rightarrow> 'r \<Rightarrow>
    'g Position \<Rightarrow> 'g Position \<Rightarrow> 's \<Rightarrow> (bool \<times> 'g Position \<times> 's) option" where
  "intersectsRay re w ray pos0 result side =
     (case rayLoop re w ray (visible_chunks w) (GLFix_maxValue re, pos0, result, side) of
        None \<Rightarrow> None
      | Some (shortest, pos, result', side') \<Rightarrow> Some (shortest \<noteq> GLFix_maxValue re, result', side'))"

section \<open>Persistence\<close>

text \<open>
  \<^verbatim>\<open>fread\<close> and \<^verbatim>\<open>fwrite\<close> move the object representation of a variable.  On the
  32-bit little-endian target an \<^verbatim>\<open>int\<close> or \<^verbatim>\<open>unsigned int\<close> is four bytes, low byte
  first, and a \<^verbatim>\<open>BLOCK_CHANGE\<close> is its six \<^verbatim>\<open>int\<close> fields, the two bytes of the block and
  two bytes of padding (written as 0 here), 28 bytes in all.
\<close>

definition bytes_of_int :: "32 word \<Rightarrow> byte list" where
  "bytes_of_int v = [ucast v, ucast (drop_bit 8 v), ucast (drop_bit 16 v), ucast (drop_bit 24 v)]"

definition int_of_bytes :: "byte list \<Rightarrow> 32 word" where
  "int_of_bytes bs = foldr (\<lambda>b acc. ucast b + push_bit 8 acc) bs 0"

definition bytes_of_block :: "BLOCK_WDATA \<Rightarrow> byte list" where
  "bytes_of_block v = [ucast v, ucast (drop_bit 8 v)]"

definition block_of_bytes :: "byte list \<Rightarrow> BLOCK_WDATA" where
  "block_of_bytes bs = foldr (\<lambda>b acc. ucast b + push_bit 8 acc) bs 0"

definition sizeof_BLOCK_CHANGE :: nat where
  "sizeof_BLOCK_CHANGE = 28"

definition bytes_of_change :: "BLOCK_CHANGE \<Rightarrow> byte list" where
  "bytes_of_change bc =
     bytes_of_int (chunk_x bc) @ bytes_of_int (chunk_y bc) @ bytes_of_int (chunk_z bc) @
     bytes_of_int (local_x bc) @ bytes_of_int (local_y bc) @ bytes_of_int (local_z bc) @
     bytes_of_block (block bc) @ [0, 0]"

definition change_of_bytes :: "byte list \<Rightarrow> BLOCK_CHANGE" where
  "change_of_bytes bs =
     \<lparr>chunk_x = int_of_bytes (take 4 bs),
      chunk_y = int_of_bytes (take 4 (drop 4 bs)),
      chunk_z = int_of_bytes (take 4 (drop 8 bs)),
      local_x = int_of_bytes (take 4 (drop 12 bs)),
      local_y = int_of_bytes (take 4 (drop 16 bs)),
      local_z = int_of_bytes (take 4 (drop 20 bs)),
      block = block_of_bytes (take 2 (drop 24 bs))\<rparr>"

text \<open>
  The memory of the vector \<open>pending_block_changes\<close> as bytes, and back.
  \<^verbatim>\<open>resize(n)\<close> keeps the first \<open>n\<close> records and fills up with value-initialised ones.
  Shrinking never fails; growing beyond the limit throws \<^verbatim>\<open>std::length_error\<close> or
  \<^verbatim>\<open>std::bad_alloc\<close> and leaves the vector as it was: the result is \<open>None\<close>.
\<close>

definition bytes_of_changes :: "BLOCK_CHANGE list \<Rightarrow> byte list" where
  "bytes_of_changes bcs = concat (map bytes_of_change bcs)"

definition changes_of_bytes :: "nat \<Rightarrow> byte list \<Rightarrow> BLOCK_CHANGE list" where
  "changes_of_bytes n bs =
     map (\<lambda>i. change_of_bytes (take sizeof_BLOCK_CHANGE (drop (sizeof_BLOCK_CHANGE * i) bs))) [0..<n]"

definition resize :: "nat \<Rightarrow> nat \<Rightarrow> BLOCK_CHANGE list \<Rightarrow> BLOCK_CHANGE list option" where
  "resize limit n bcs =
     (if n \<le> length bcs \<or> n \<le> limit
      then Some (take n bcs @ replicate (n - length bcs)
        \<lparr>chunk_x = 0, chunk_y = 0, chunk_z = 0, local_x = 0, local_y = 0, local_z = 0, block = 0\<rparr>)
      else None)"

text \<open>
  \<^verbatim>\<open>LOAD_FROM_FILE(var)\<close>: one \<^verbatim>\<open>fread\<close> of \<^verbatim>\<open>sizeof(var)\<close> bytes into the variable whose
  bytes are \<open>old\<close>.  The result is whether the item was read, and the bytes of the
  variable afterwards: a short read overwrites only the bytes that arrived.
\<close>

definition LOAD_FROM_FILE :: "byte list \<Rightarrow> FILE \<Rightarrow> bool \<times> byte list \<times> FILE" where
  "LOAD_FROM_FILE old f =
     (case fread (length old) 1 f of (got, n, f') \<Rightarrow> (n = 1, got @ drop (length got) old, f'))"

text \<open>
  \<^verbatim>\<open>SAVE_TO_FILE(var)\<close>: one \<^verbatim>\<open>fwrite\<close> of the bytes of the variable.
\<close>

definition SAVE_TO_FILE :: "byte list \<Rightarrow> OFILE \<Rightarrow> bool \<times> OFILE" where
  "SAVE_TO_FILE bs out = (case fwrite bs (length bs) 1 out of (n, out') \<Rightarrow> (n = 1, out'))"

text \<open>
  One pass through the body of \<^verbatim>\<open>while(!feof(file))\<close>: the three coordinates (locals,
  uninitialised before the read, here 0), the new chunk, its own
  \<^verbatim>\<open>loadFromFile\<close>, and either \<^verbatim>\<open>delete c; return false\<close> or the \<^verbatim>\<open>push_back\<close>.  The
  first component tells whether the loop goes on.
\<close>

definition loadChunkRecord :: "'b env \<Rightarrow> 'b World \<Rightarrow> FILE \<Rightarrow> bool \<times> 'b World \<times> FILE" where
  "loadChunkRecord e w f =
     (case LOAD_FROM_FILE (bytes_of_int 0) f of (okx, bx, f1) \<Rightarrow>
      if \<not> okx then (False, w, f1) else
      case LOAD_FROM_FILE (bytes_of_int 0) f1 of (oky, by, f2) \<Rightarrow>
      if \<not> oky then (False, w, f2) else
      case LOAD_FROM_FILE (bytes_of_int 0) f2 of (okz, bz, f3) \<Rightarrow>
      if \<not> okz then (False, w, f3) else
      (let x = int_of_bytes bx; y = int_of_bytes by; z = int_of_bytes bz;
           c0 = \<lparr>Chunk_x = x, Chunk_y = y, Chunk_z = z, Chunk_state = Chunk_new e x y z\<rparr>;
           (w1, p) = new_Chunk c0 w
       in case Chunk_loadFromFile e c0 (content f3) of (ok, b, used, hit) \<Rightarrow>
          (let f4 = \<lparr>content = drop used (content f3), eof = eof f3 \<or> hit\<rparr>;
               w2 = assign p (c0\<lparr>Chunk_state := b\<rparr>) w1
           in if \<not> ok then (False, delete_Chunk p w2, f4)
              else (True, w2\<lparr>all_chunks := all_chunks w2 @ [p]\<rparr>, f4))))"

function loadChunks :: "'b env \<Rightarrow> 'b World \<Rightarrow> FILE \<Rightarrow> bool \<times> 'b World \<times> FILE" where
  "loadChunks e w f =
     (if eof f then (True, w, f)
      else case loadChunkRecord e w f of
             (False, w', f') \<Rightarrow> (False, w', f')
           | (True, w', f') \<Rightarrow> loadChunks e w' f')"
  by pat_completeness auto
termination
proof (relation "measure (\<lambda>(e, w, f). length (content f))")
  show "wf (measure (\<lambda>(e, w, f). length (content f)))" by simp
next
  fix e :: "'b env" and w w' :: "'b World" and f f' :: FILE and go :: bool
    and r :: "'b World \<times> FILE"
  assume "\<not> eof f" and "(go, r) = loadChunkRecord e w f" and "go = True" and "(w', f') = r"
  then have rec: "loadChunkRecord e w f = (True, w', f')" by simp
  have "length (content f') < length (content f)"
    using rec
    by (auto simp: loadChunkRecord_def LOAD_FROM_FILE_def fread_def bytes_of_int_def Let_def new_Chunk_def
        split: prod.splits if_splits)
  then show "((e, w', f'), (e, w, f)) \<in> measure (\<lambda>(e, w, f). length (content f))" by simp
qed

declare loadChunks.simps [simp del]

text \<open>
  How a call of \<^verbatim>\<open>loadFromFile\<close> ends: it returns a \<^verbatim>\<open>bool\<close>, or an exception leaves
  it.  The only statement of the function that can throw on the contents of the stream
  is the \<^verbatim>\<open>resize\<close> with the count read from it; \<^verbatim>\<open>new Chunk\<close> and \<^verbatim>\<open>push_back\<close>
  are taken to succeed.  The world and the stream are given as they are at that moment.
\<close>

datatype outcome = Returns bool | Throws

definition loadFromFile :: "'b env \<Rightarrow> 'b World \<Rightarrow> FILE \<Rightarrow> outcome \<times> 'b World \<times> FILE" where
  "loadFromFile e w f =
     (case LOAD_FROM_FILE (bytes_of_int (seed w)) f of (ok1, bs1, f1) \<Rightarrow>
      let w1 = w\<lparr>seed := int_of_bytes bs1\<rparr> in
      if \<not> ok1 then (Returns False, w1, f1) else
      let w2 = w1\<lparr>perlin_noise := seed w1\<rparr> in
      case LOAD_FROM_FILE (bytes_of_int 0) f1 of (ok2, bs2, f2) \<Rightarrow>
      if \<not> ok2 then (Returns False, w2, f2) else
      let block_changes = unat (int_of_bytes bs2) in
      case resize (resize_limit e) block_changes (pending_block_changes w2) of
        None \<Rightarrow> (Throws, w2, f2)
      | Some resized \<Rightarrow>
      let w3 = w2\<lparr>pending_block_changes := resized\<rparr>
      in case fread sizeof_BLOCK_CHANGE block_changes f2 of (got, n, f3) \<Rightarrow>
      let mem = got @ drop (length got) (bytes_of_changes (pending_block_changes w3));
          w4 = w3\<lparr>pending_block_changes := changes_of_bytes block_changes mem\<rparr>
      in if n \<noteq> block_changes then (Returns False, w4, f3) else
      case LOAD_FROM_FILE (bytes_of_int (field_of_view w4)) f3 of (ok4, bs4, f4) \<Rightarrow>
      let w5 = w4\<lparr>field_of_view := int_of_bytes bs4\<rparr> in
      if \<not> ok4 then (Returns False, w5, f4) else
      case loadChunks e w5 f4 of (r, w6, f5) \<Rightarrow> (Returns r, w6, f5))"

text \<open>
  The loop of \<^verbatim>\<open>saveToFile\<close> over \<open>all_chunks\<close>; as in \<open>findIn\<close>, a dead cell is
  passed over.
\<close>

fun saveChunks :: "'b env \<Rightarrow> 'b World \<Rightarrow> addr list \<Rightarrow> OFILE \<Rightarrow> bool \<times> OFILE" where
  "saveChunks e w [] out = (True, out)"
| "saveChunks e w (p # ps) out =
     (case deref w p of
        None \<Rightarrow> saveChunks e w ps out
      | Some c \<Rightarrow>
          (case SAVE_TO_FILE (bytes_of_int (Chunk_x c)) out of (okx, o1) \<Rightarrow>
           if \<not> okx then (False, o1) else
           case SAVE_TO_FILE (bytes_of_int (Chunk_y c)) o1 of (oky, o2) \<Rightarrow>
           if \<not> oky then (False, o2) else
           case SAVE_TO_FILE (bytes_of_int (Chunk_z c)) o2 of (okz, o3) \<Rightarrow>
           if \<not> okz then (False, o3) else
           case Chunk_saveToFile e c o3 of (ok, o4) \<Rightarrow>
           if \<not> ok then (False, o4) else saveChunks e w ps o4))"

definition saveToFile :: "'b env \<Rightarrow> 'b World \<Rightarrow> OFILE \<Rightarrow> bool \<times> OFILE" where
  "saveToFile e w out =
     (case SAVE_TO_FILE (bytes_of_int (seed w)) out of (ok1, o1) \<Rightarrow>
      if \<not> ok1 then (False, o1) else
      let block_changes = (word_of_nat (length (pending_block_changes w)) :: 32 word) in
      case SAVE_TO_FILE (bytes_of_int block_changes) o1 of (ok2, o2) \<Rightarrow>
      if \<not> ok2 then (False, o2) else
      case fwrite (bytes_of_changes (pending_block_changes w)) sizeof_BLOCK_CHANGE (unat block_changes) o2
      of (n, o3) \<Rightarrow>
      if n \<noteq> unat block_changes then (False, o3) else
      case SAVE_TO_FILE (bytes_of_int (field_of_view w)) o3 of (ok4, o4) \<Rightarrow>
      if \<not> ok4 then (False, o4) else
      saveChunks e w (all_chunks w) o4)"

section \<open>The public operations as a transition system\<close>

text \<open>
  The operations of \<^verbatim>\<open>World\<close> that change its state.  \<^verbatim>\<open>getBlock\<close>, \<^verbatim>\<open>intersect\<close>,
  \<^verbatim>\<open>intersectsRay\<close>, \<^verbatim>\<open>saveToFile\<close> and \<^verbatim>\<open>noiseGenerator\<close> are \<^verbatim>\<open>const\<close>.  A
  \<^verbatim>\<open>loadFromFile\<close> leaves the world it has built so far, whether it returns true or
  false or throws.
\<close>

datatype operation =
    SetBlock cint cint cint BLOCK_WDATA
  | ChangeBlock cint cint cint BLOCK_WDATA
  | BlockAction cint cint cint
  | SetPosition cint cint cint
  | Render
  | Clear
  | LoadFromFile FILE
  | GenerateSeed "32 word"

fun step :: "'b env \<Rightarrow> operation \<Rightarrow> 'b World \<Rightarrow> 'b World option" where
  "step e (SetBlock x y z blk) w = Some (setBlock e x y z blk w)"
| "step e (ChangeBlock x y z blk) w = Some (changeBlock e x y z blk w)"
| "step e (BlockAction x y z) w = Some (snd (blockAction e x y z w))"
| "step e (SetPosition x y z) w = Some (setPosition e x y z w)"
| "step e Render w = render e w"
| "step e Clear w = Some (clear w)"
| "step e (LoadFromFile f) w = Some (fst (snd (loadFromFile e w f)))"
| "step e (GenerateSeed v) w = Some (generateSeed v w)"

text \<open>
  A world is reachable when a sequence of operations builds it from a world as the
  constructor leaves it: the three vectors empty.
\<close>

inductive reachable :: "'b env \<Rightarrow> 'b World \<Rightarrow> bool" for e :: "'b env" where
  constructed: "all_chunks w = [] \<Longrightarrow> visible_chunks w = [] \<Longrightarrow> pending_block_changes w = [] \<Longrightarrow>
     reachable e w"
| operation: "reachable e w \<Longrightarrow> step e opn w = Some w' \<Longrightarrow> reachable e w'"

section \<open>Notions used to state the properties\<close>

text \<open>The chunk coordinate a pointer leads to, and those of the visible list in order.\<close>

definition coordOf :: "'b World \<Rightarrow> addr \<Rightarrow> (cint \<times> cint \<times> cint) option" where
  "coordOf w p = map_option (\<lambda>c. (Chunk_x c, Chunk_y c, Chunk_z c)) (deref w p)"

definition visible_coords :: "'b World \<Rightarrow> (cint \<times> cint \<times> cint) option list" where
  "visible_coords w = map (coordOf w) (visible_chunks w)"

text \<open>No chunk of the registry has the chunk coordinate \<open>(x, y, z)\<close>.\<close>

definition absent :: "'b World \<Rightarrow> cint \<Rightarrow> cint \<Rightarrow> cint \<Rightarrow> bool" where
  "absent w x y z = list_all (\<lambda>p. coordOf w p \<noteq> Some (x, y, z)) (all_chunks w)"

text \<open>
  The hits reported by the chunks of a pointer list, in the order of the list: the
  distance, the hit position moved to world coordinates, and the side.
\<close>

fun rayHits :: "('b, 'r, 'd, 'g, 's) ray_env \<Rightarrow> 'b World \<Rightarrow> 'r \<Rightarrow> addr list \<Rightarrow> 'g Position \<Rightarrow>
    ('d \<times> 'g Position \<times> 's) list" where
  "rayHits re w ray [] pos = []"
| "rayHits re w ray (p # ps) pos =
     (case deref w p of
        None \<Rightarrow> rayHits re w ray ps pos
      | Some c \<Rightarrow>
          (case Chunk_intersectsRay re c ray pos of
             (hit, new_d, pos', new_side) \<Rightarrow>
               (if hit then [(new_d, toWorld re c pos', new_side)] else []) @ rayHits re w ray ps pos'))"

text \<open>
  The invariant of the registry: every visible pointer is a registry pointer, and
  every registry pointer is live.
\<close>

definition registry_ok :: "'b World \<Rightarrow> bool" where
  "registry_ok w = (list_all (\<lambda>p. p \<in> set (all_chunks w)) (visible_chunks w) \<and>
     list_all (\<lambda>p. coordOf w p \<noteq> None) (all_chunks w))"

text \<open>
  Two worlds with the same registry, the same visible list and the same coordinate
  behind every pointer.
\<close>

definition same_shape :: "'b World \<Rightarrow> 'b World \<Rightarrow> bool" where
  "same_shape w w' = (all_chunks w' = all_chunks w \<and> visible_chunks w' = visible_chunks w \<and>
     (\<forall>q. coordOf w' q = coordOf w q))"

text \<open>
  The update of the nearest hit in \<^verbatim>\<open>intersectsRay\<close>: a hit replaces the best one so
  far unless its distance is greater (\<^verbatim>\<open>if(new_dist > shortest_dist) continue;\<close>).
\<close>

definition pickHit :: "'d::linorder \<times> 'p \<times> 's \<Rightarrow> 'd \<times> 'p \<times> 's \<Rightarrow> 'd \<times> 'p \<times> 's" where
  "pickHit h best = (if fst h > fst best then best else h)"






text \<open>
  The offsets that the innermost loop of \<^verbatim>\<open>setPosition\<close> does not skip in shell \<open>d\<close>,
  the chunk coordinate at an offset from the centre, and the centre with the offsets
  kept in the shells 1 to \<open>r\<close>, in the order of the visit.
\<close>

definition keeps :: "'b env \<Rightarrow> cint \<Rightarrow> int \<Rightarrow> int \<times> int \<times> int \<Rightarrow> bool" where
  "keeps e cy d xyz = (case xyz of (x, y, z) \<Rightarrow>
     \<not> (sint cy + y < 0 \<or> sint cy + y \<ge> sint (HEIGHT e) \<or> round_sqrt (x * x + y * y + z * z) \<noteq> d))"

definition shift :: "cint \<Rightarrow> cint \<Rightarrow> cint \<Rightarrow> int \<times> int \<times> int \<Rightarrow> cint \<times> cint \<times> cint" where
  "shift cx cy cz xyz = (case xyz of (x, y, z) \<Rightarrow>
     (cx + word_of_int x, cy + word_of_int y, cz + word_of_int z))"

definition kept_offsets :: "'b env \<Rightarrow> cint \<Rightarrow> int \<Rightarrow> (int \<times> int \<times> int) list" where
  "kept_offsets e cy r =
     (0, 0, 0) # concat (map (\<lambda>d. filter (keeps e cy d) (offsets d)) [1..r])"

section \<open>A small instance of the collaborators\<close>

text \<open>
  To run the model on concrete worlds: a chunk that remembers its last edit (local
  coordinate and block), reads as 0 elsewhere, and is stored as 14 bytes.  The limit of
  \<^verbatim>\<open>resize\<close> is the \<^verbatim>\<open>max_size()\<close> of a vector of 28-byte records on a 32-bit target,
  \<open>(2\<^sup>3\<^sup>1 - 1) div 28\<close>.
\<close>

type_synonym toy = "cint \<times> cint \<times> cint \<times> BLOCK_WDATA"

definition toy_bytes :: "toy \<Rightarrow> byte list" where
  "toy_bytes t = (case t of (a, b, c, blk) \<Rightarrow>
     bytes_of_int a @ bytes_of_int b @ bytes_of_int c @ bytes_of_block blk)"

definition toy_of_bytes :: "byte list \<Rightarrow> toy" where
  "toy_of_bytes bs =
     (int_of_bytes (take 4 bs), int_of_bytes (take 4 (drop 4 bs)), int_of_bytes (take 4 (drop 8 bs)),
      block_of_bytes (take 2 (drop 12 bs)))"

definition toy_env :: "toy env" where
  "toy_env =
     \<lparr>HEIGHT = 5, BLOCK_AIR = 0, BLOCK_STONE = 1,
      toBlockCoord = signed_drop_bit 7,
      Chunk_new = (\<lambda>x y z. (0, 0, 0, 0)),
      Chunk_generate = (\<lambda>w c. (0, 0, 0, 2)),
      Chunk_getLocalBlock = (\<lambda>c x y z. case Chunk_state c of (a, b, c', blk) \<Rightarrow>
         if a = x \<and> b = y \<and> c' = z then blk else 0),
      Chunk_setLocalBlock = (\<lambda>c x y z blk. (x, y, z, blk)),
      Chunk_changeLocalBlock = (\<lambda>c x y z blk. (x, y, z, blk)),
      Chunk_setDirty = Chunk_state,
      Chunk_logic = (\<lambda>w. Chunk_state),
      Chunk_render = (\<lambda>w. Chunk_state),
      BlockRenderer_action = (\<lambda>blk x y z c. (False, Chunk_state c)),
      Chunk_loadFromFile = (\<lambda>c bs.
         if length bs < 14 then (False, Chunk_state c, length bs, True)
         else (True, toy_of_bytes (take 14 bs), 14, False)),
      Chunk_saveToFile = (\<lambda>c out. case fwrite (toy_bytes (Chunk_state c)) 14 1 out of
         (n, out') \<Rightarrow> (n = 1, out')),
      resize_limit = 76695844\<rparr>"

text \<open>
  For the ray: the toy chunk reports a hit when its block is not 0, at the distance
  given by the first coordinate of its edit; distances are unsigned 32-bit values, the
  largest being \<open>- 1\<close>.
\<close>

definition toy_ray_env :: "(toy, unit, 32 word, int, nat) ray_env" where
  "toy_ray_env =
     \<lparr>GLFix_maxValue = - 1,
      plus_int = (\<lambda>g i. g + sint i),
      Chunk_intersectsRay = (\<lambda>c ray pos. case Chunk_state c of (a, b, c', blk) \<Rightarrow>
         (blk \<noteq> 0, a, \<lparr>Position_x = sint a, Position_y = sint b, Position_z = sint c'\<rparr>, unat blk))\<rparr>"

definition toy_world :: "toy World" where
  "toy_world =
     \<lparr>seed = 7, perlin_noise = 7, store = [], all_chunks = [], visible_chunks = [],
      pending_block_changes = [], field_of_view = 1, loaded = False,
      cen_x = 0, cen_y = 0, cen_z = 0\<rparr>"

text \<open>A world whose registry holds the chunk \<open>(0, 0, 0)\<close>, visible, edited at \<open>(1, 2, 3)\<close>.\<close>

definition toy_world1 :: "toy World" where
  "toy_world1 =
     \<lparr>seed = 7, perlin_noise = 7,
      store = [Some \<lparr>Chunk_x = 0, Chunk_y = 0, Chunk_z = 0, Chunk_state = (1, 2, 3, 9)\<rparr>],
      all_chunks = [0], visible_chunks = [0],
      pending_block_changes = [], field_of_view = 0, loaded = True,
      cen_x = 0, cen_y = 0, cen_z = 0\<rparr>"

text \<open>
  The empty world after two edits, at \<open>(9, 2, 3)\<close> and at \<open>(100, 0, 0)\<close>: both are
  pending.
\<close>

definition toy_world2 :: "toy World" where
  "toy_world2 = setBlock toy_env 100 0 0 9 (setBlock toy_env 9 2 3 5 toy_world)"

text \<open>
  Two visible chunks that both report a hit at distance 5, and a world whose only
  chunk reports a hit at the sentinel distance.
\<close>

definition toy_world3 :: "toy World" where
  "toy_world3 =
     \<lparr>seed = 7, perlin_noise = 7,
      store = [Some \<lparr>Chunk_x = 0, Chunk_y = 0, Chunk_z = 0, Chunk_state = (5, 0, 0, 1)\<rparr>,
               Some \<lparr>Chunk_x = 1, Chunk_y = 0, Chunk_z = 0, Chunk_state = (5, 0, 0, 2)\<rparr>],
      all_chunks = [0, 1], visible_chunks = [0, 1],
      pending_block_changes = [], field_of_view = 1, loaded = True,
      cen_x = 0, cen_y = 0, cen_z = 0\<rparr>"

definition toy_world4 :: "toy World" where
  "toy_world4 =
     \<lparr>seed = 7, perlin_noise = 7,
      store = [Some \<lparr>Chunk_x = 0, Chunk_y = 0, Chunk_z = 0, Chunk_state = (- 1, 0, 0, 1)\<rparr>],
      all_chunks = [0], visible_chunks = [0],
      pending_block_changes = [], field_of_view = 0, loaded = True,
      cen_x = 0, cen_y = 0, cen_z = 0\<rparr>"

text \<open>A world to save: a seed, one pending change, a view radius and one chunk.\<close>

definition toy_world5 :: "toy World" where
  "toy_world5 =
     \<lparr>seed = 42, perlin_noise = 42,
      store = [Some \<lparr>Chunk_x = 0, Chunk_y = 0, Chunk_z = 0, Chunk_state = (1, 2, 3, 9)\<rparr>],
      all_chunks = [0], visible_chunks = [0],
      pending_block_changes =
        [\<lparr>chunk_x = 12, chunk_y = 0, chunk_z = - 1, local_x = 4, local_y = 0, local_z = 7, block = 9\<rparr>],
      field_of_view = 3, loaded = True,
      cen_x = 0, cen_y = 0, cen_z = 0\<rparr>"

section \<open>Coordinate mapping: proofs\<close>

lemma sint_getChunk: "sint (getChunk g) = sint g div 8"
  by (simp add: getChunk_def sint_signed_drop_bit_eq drop_bit_eq_div)

lemma getLocal_take_bit: "getLocal g = take_bit 3 g"
  by (simp add: getLocal_def take_bit_eq_mask mask_eq_exp_minus_1)

lemma uint_getLocal: "uint (getLocal g) = uint g mod 8"
  unfolding getLocal_take_bit unsigned_take_bit_eq by (simp add: take_bit_eq_mod)

lemma sint_getLocal: "sint (getLocal g) = sint g mod 8"
proof -
  have u: "uint (getLocal g) = uint g mod 8" by (rule uint_getLocal)
  have lo: "- (2 ^ 31) \<le> uint (getLocal g)"
  proof -
    have "- (2 ^ 31) \<le> (0::int)" by simp
    also have "0 \<le> uint (getLocal g)" by simp
    finally show ?thesis .
  qed
  have hi: "uint (getLocal g) < 2 ^ 31" using u by simp
  have "signed_take_bit 31 (uint (getLocal g)) = uint (getLocal g)"
    by (rule signed_take_bit_int_eq_self [OF lo hi])
  then have s: "sint (getLocal g) = uint (getLocal g)"
    by (simp add: sint_uint)
  have "uint g = take_bit 32 (sint g)" by (simp add: uint_sint)
  then have "uint g mod 8 = sint g mod 8"
    by (simp add: take_bit_eq_mod mod_mod_cancel)
  show ?thesis using s u \<open>uint g mod 8 = sint g mod 8\<close> by simp
qed

text \<open>
  C2.  For every \<^verbatim>\<open>int\<close> \<open>g\<close>, negative or not, \<open>getChunk g * 8 + getLocal g = g\<close>, both
  in machine arithmetic and on the signed values, \<open>0 \<le> getLocal g < 8\<close>, and the chunk
  index is the floor division of \<open>g\<close> by 8.
\<close>

theorem coordinate_round_trip:
  "getChunk g * 8 + getLocal g = g \<and>
   sint (getChunk g) * 8 + sint (getLocal g) = sint g \<and>
   0 \<le> sint (getLocal g) \<and> sint (getLocal g) < 8 \<and>
   sint (getChunk g) = sint g div 8"
proof -
  have i: "sint (getChunk g) * 8 + sint (getLocal g) = sint g"
    by (simp add: sint_getChunk sint_getLocal)
  then have "word_of_int (sint (getChunk g) * 8 + sint (getLocal g)) = (word_of_int (sint g) :: cint)"
    by simp
  then have w: "getChunk g * 8 + getLocal g = g" by simp
  show ?thesis using i w by (simp add: sint_getChunk sint_getLocal)
qed

section \<open>Lookup\<close>

lemma findIn_Some:
  "findIn w x y z ps = Some (p, c) \<Longrightarrow>
     p \<in> set ps \<and> deref w p = Some c \<and> Chunk_x c = x \<and> Chunk_y c = y \<and> Chunk_z c = z"
  by (induction ps) (auto split: option.splits if_splits)

lemma findIn_None:
  "findIn w x y z ps = None \<longleftrightarrow> list_all (\<lambda>p. coordOf w p \<noteq> Some (x, y, z)) ps"
  by (induction ps) (auto simp: coordOf_def split: option.splits if_splits)

lemma findChunk_Some:
  "findChunk w x y z = Some (p, c) \<Longrightarrow>
     p \<in> set (all_chunks w) \<and> deref w p = Some c \<and> Chunk_x c = x \<and> Chunk_y c = y \<and> Chunk_z c = z"
  unfolding findChunk_def by (rule findIn_Some)

lemma findChunk_None: "findChunk w x y z = None \<longleftrightarrow> absent w x y z"
  unfolding findChunk_def absent_def by (rule findIn_None)

text \<open>
  C5.  When no chunk of the registry has the chunk coordinate of \<open>(x, y, z)\<close>,
  \<open>getBlock\<close> returns air if the vertical chunk index equals \<open>HEIGHT\<close> and stone
  otherwise, whatever \<^verbatim>\<open>Chunk::getLocalBlock\<close> is (no chunk is called); when there is one,
  it returns the block of a registered chunk with that coordinate at the local
  coordinate.
\<close>

theorem getBlock_fallback:
  "(absent w (getChunk x) (getChunk y) (getChunk z) \<longrightarrow>
      getBlock e w x y z = (if getChunk y = HEIGHT e then BLOCK_AIR e else BLOCK_STONE e) \<and>
      (\<forall>f. getBlock (e\<lparr>Chunk_getLocalBlock := f\<rparr>) w x y z = getBlock e w x y z)) \<and>
   (\<not> absent w (getChunk x) (getChunk y) (getChunk z) \<longrightarrow>
      (\<exists>p c. p \<in> set (all_chunks w) \<and> deref w p = Some c \<and>
         Chunk_x c = getChunk x \<and> Chunk_y c = getChunk y \<and> Chunk_z c = getChunk z \<and>
         getBlock e w x y z = Chunk_getLocalBlock e c (getLocal x) (getLocal y) (getLocal z)))"
proof (intro conjI impI)
  assume a: "absent w (getChunk x) (getChunk y) (getChunk z)"
  then have n: "findChunk w (getChunk x) (getChunk y) (getChunk z) = None"
    by (simp add: findChunk_None)
  show "getBlock e w x y z = (if getChunk y = HEIGHT e then BLOCK_AIR e else BLOCK_STONE e)"
    using n by (simp add: getBlock_def)
  show "\<forall>f. getBlock (e\<lparr>Chunk_getLocalBlock := f\<rparr>) w x y z = getBlock e w x y z"
    using n by (simp add: getBlock_def)
next
  assume "\<not> absent w (getChunk x) (getChunk y) (getChunk z)"
  then obtain p c where f: "findChunk w (getChunk x) (getChunk y) (getChunk z) = Some (p, c)"
    by (cases "findChunk w (getChunk x) (getChunk y) (getChunk z)") (auto simp: findChunk_None)
  have "getBlock e w x y z = Chunk_getLocalBlock e c (getLocal x) (getLocal y) (getLocal z)"
    using f by (simp add: getBlock_def)
  with findChunk_Some [OF f]
  show "\<exists>p c. p \<in> set (all_chunks w) \<and> deref w p = Some c \<and>
         Chunk_x c = getChunk x \<and> Chunk_y c = getChunk y \<and> Chunk_z c = getChunk z \<and>
         getBlock e w x y z = Chunk_getLocalBlock e c (getLocal x) (getLocal y) (getLocal z)"
    by blast
qed

lemma toy_absent: "absent toy_world a b c"
  by (simp add: absent_def toy_world_def)

theorem getBlock_fallback_witness:
  "absent toy_world (getChunk 3) (getChunk 40) (getChunk 3) \<and>
   getBlock toy_env toy_world 3 40 3 = BLOCK_AIR toy_env \<and>
   absent toy_world (getChunk 3) (getChunk 39) (getChunk 3) \<and>
   getBlock toy_env toy_world 3 39 3 = BLOCK_STONE toy_env \<and>
   \<not> absent toy_world1 (getChunk 1) (getChunk 2) (getChunk 3) \<and>
   getBlock toy_env toy_world1 1 2 3 = 9"
proof -
  have p: "\<not> absent toy_world1 (getChunk 1) (getChunk 2) (getChunk 3)"
    by (simp add: absent_def toy_world1_def coordOf_def deref_def getChunk_def)
  have d: "deref toy_world1 p = Some c \<Longrightarrow> c = \<lparr>Chunk_x = 0, Chunk_y = 0, Chunk_z = 0, Chunk_state = (1, 2, 3, 9)\<rparr>"
    for p c by (auto simp: deref_def toy_world1_def split: if_splits)
  have g: "Chunk_getLocalBlock toy_env \<lparr>Chunk_x = 0, Chunk_y = 0, Chunk_z = 0, Chunk_state = (1, 2, 3, 9)\<rparr>
      (getLocal 1) (getLocal 2) (getLocal 3) = 9"
    by (simp add: toy_env_def getLocal_def)
  from getBlock_fallback [of toy_world1 1 2 3 toy_env] p
  have "getBlock toy_env toy_world1 1 2 3 = 9" using d g by auto
  with p getBlock_fallback [of toy_world 3 40 3 toy_env] getBlock_fallback [of toy_world 3 39 3 toy_env]
  show ?thesis by (simp add: toy_absent) (simp add: toy_env_def getChunk_def)
qed

section \<open>Deferred edits\<close>

lemma targets_applyChange [simp]: "targets (applyChange e bc c) = targets c"
  by (simp add: targets_def applyChange_def fun_eq_iff)

lemma drainPending_eq:
  "drainPending e c bcs =
     (fold (applyChange e) (filter (targets c) bcs) c, filter (\<lambda>bc. \<not> targets c bc) bcs)"
  by (induction bcs arbitrary: c) simp_all

lemma setDirtyAt_fields [simp]:
  "pending_block_changes (setDirtyAt e x y z w) = pending_block_changes w"
  "all_chunks (setDirtyAt e x y z w) = all_chunks w"
  "visible_chunks (setDirtyAt e x y z w) = visible_chunks w"
  "field_of_view (setDirtyAt e x y z w) = field_of_view w"
  "length (store (setDirtyAt e x y z w)) = length (store w)"
  by (simp_all add: setDirtyAt_def assign_def split: option.splits prod.splits)

lemma generateChunk_result:
  "\<exists>wg. generateChunk e x y z w =
     ((fst (generateChunk e x y z w)), length (store w)) \<and>
     pending_block_changes (fst (generateChunk e x y z w)) =
       filter (\<lambda>bc. \<not> (chunk_x bc = x \<and> chunk_y bc = y \<and> chunk_z bc = z)) (pending_block_changes w) \<and>
     all_chunks (fst (generateChunk e x y z w)) = all_chunks w @ [length (store w)] \<and>
     deref (fst (generateChunk e x y z w)) (length (store w)) =
       Some (fold (applyChange e)
         (filter (\<lambda>bc. chunk_x bc = x \<and> chunk_y bc = y \<and> chunk_z bc = z) (pending_block_changes w))
         \<lparr>Chunk_x = x, Chunk_y = y, Chunk_z = z,
          Chunk_state = Chunk_generate e wg
            \<lparr>Chunk_x = x, Chunk_y = y, Chunk_z = z, Chunk_state = Chunk_new e x y z\<rparr>\<rparr>)"
  apply (simp add: generateChunk_def Let_def new_Chunk_def drainPending_eq split: prod.splits)
  apply (simp add: assign_def deref_def targets_def [abs_def] eq_commute)
  apply (rule exI) apply (rule refl)
  done

text \<open>
  C6.  \<open>setBlock\<close> and \<open>changeBlock\<close> on a coordinate whose chunk is absent append
  one record (chunk coordinate, local coordinate, block) to \<open>pending_block_changes\<close> and
  change nothing else.  \<open>generateChunk\<close> registers a new chunk; from the generated
  chunk it applies, in queue order, exactly the queued entries whose chunk coordinate is
  that of the new chunk, each at its recorded local coordinate, and the queue keeps
  exactly the other entries, unchanged and in their order.
\<close>

theorem deferred_edit:
  "(absent w (getChunk x) (getChunk y) (getChunk z) \<longrightarrow>
      setBlock e x y z blk w =
        w\<lparr>pending_block_changes := pending_block_changes w @
          [\<lparr>chunk_x = getChunk x, chunk_y = getChunk y, chunk_z = getChunk z,
            local_x = getLocal x, local_y = getLocal y, local_z = getLocal z, block = blk\<rparr>]\<rparr> \<and>
      changeBlock e x y z blk w =
        w\<lparr>pending_block_changes := pending_block_changes w @
          [\<lparr>chunk_x = getChunk x, chunk_y = getChunk y, chunk_z = getChunk z,
            local_x = getLocal x, local_y = getLocal y, local_z = getLocal z, block = blk\<rparr>]\<rparr>) \<and>
   (\<exists>wg.
      pending_block_changes (fst (generateChunk e cx cy cz w)) =
        filter (\<lambda>bc. \<not> (chunk_x bc = cx \<and> chunk_y bc = cy \<and> chunk_z bc = cz)) (pending_block_changes w) \<and>
      all_chunks (fst (generateChunk e cx cy cz w)) = all_chunks w @ [snd (generateChunk e cx cy cz w)] \<and>
      deref (fst (generateChunk e cx cy cz w)) (snd (generateChunk e cx cy cz w)) =
        Some (fold (\<lambda>bc c. c\<lparr>Chunk_state :=
                  Chunk_setLocalBlock e c (local_x bc) (local_y bc) (local_z bc) (block bc)\<rparr>)
          (filter (\<lambda>bc. chunk_x bc = cx \<and> chunk_y bc = cy \<and> chunk_z bc = cz) (pending_block_changes w))
          \<lparr>Chunk_x = cx, Chunk_y = cy, Chunk_z = cz,
           Chunk_state = Chunk_generate e wg
             \<lparr>Chunk_x = cx, Chunk_y = cy, Chunk_z = cz, Chunk_state = Chunk_new e cx cy cz\<rparr>\<rparr>))"
proof (intro conjI impI)
  assume "absent w (getChunk x) (getChunk y) (getChunk z)"
  then have n: "findChunk w (getChunk x) (getChunk y) (getChunk z) = None"
    by (simp add: findChunk_None)
  show "setBlock e x y z blk w =
        w\<lparr>pending_block_changes := pending_block_changes w @
          [\<lparr>chunk_x = getChunk x, chunk_y = getChunk y, chunk_z = getChunk z,
            local_x = getLocal x, local_y = getLocal y, local_z = getLocal z, block = blk\<rparr>]\<rparr>"
    using n by (simp add: setBlock_def)
  show "changeBlock e x y z blk w =
        w\<lparr>pending_block_changes := pending_block_changes w @
          [\<lparr>chunk_x = getChunk x, chunk_y = getChunk y, chunk_z = getChunk z,
            local_x = getLocal x, local_y = getLocal y, local_z = getLocal z, block = blk\<rparr>]\<rparr>"
    using n by (simp add: changeBlock_def)
next
  have a: "applyChange e = (\<lambda>bc c. c\<lparr>Chunk_state :=
                  Chunk_setLocalBlock e c (local_x bc) (local_y bc) (local_z bc) (block bc)\<rparr>)"
    by (simp add: applyChange_def fun_eq_iff)
  from generateChunk_result [of e cx cy cz w] obtain wg where
    g: "generateChunk e cx cy cz w = ((fst (generateChunk e cx cy cz w)), length (store w))"
    and r: "pending_block_changes (fst (generateChunk e cx cy cz w)) =
       filter (\<lambda>bc. \<not> (chunk_x bc = cx \<and> chunk_y bc = cy \<and> chunk_z bc = cz)) (pending_block_changes w)"
     "all_chunks (fst (generateChunk e cx cy cz w)) = all_chunks w @ [length (store w)]"
     "deref (fst (generateChunk e cx cy cz w)) (length (store w)) =
       Some (fold (applyChange e)
         (filter (\<lambda>bc. chunk_x bc = cx \<and> chunk_y bc = cy \<and> chunk_z bc = cz) (pending_block_changes w))
         \<lparr>Chunk_x = cx, Chunk_y = cy, Chunk_z = cz,
          Chunk_state = Chunk_generate e wg
            \<lparr>Chunk_x = cx, Chunk_y = cy, Chunk_z = cz, Chunk_state = Chunk_new e cx cy cz\<rparr>\<rparr>)"
    by blast
  have s: "snd (generateChunk e cx cy cz w) = length (store w)"
    using g by (metis snd_conv)
  show "\<exists>wg.
      pending_block_changes (fst (generateChunk e cx cy cz w)) =
        filter (\<lambda>bc. \<not> (chunk_x bc = cx \<and> chunk_y bc = cy \<and> chunk_z bc = cz)) (pending_block_changes w) \<and>
      all_chunks (fst (generateChunk e cx cy cz w)) = all_chunks w @ [snd (generateChunk e cx cy cz w)] \<and>
      deref (fst (generateChunk e cx cy cz w)) (snd (generateChunk e cx cy cz w)) =
        Some (fold (\<lambda>bc c. c\<lparr>Chunk_state :=
                  Chunk_setLocalBlock e c (local_x bc) (local_y bc) (local_z bc) (block bc)\<rparr>)
          (filter (\<lambda>bc. chunk_x bc = cx \<and> chunk_y bc = cy \<and> chunk_z bc = cz) (pending_block_changes w))
          \<lparr>Chunk_x = cx, Chunk_y = cy, Chunk_z = cz,
           Chunk_state = Chunk_generate e wg
             \<lparr>Chunk_x = cx, Chunk_y = cy, Chunk_z = cz, Chunk_state = Chunk_new e cx cy cz\<rparr>\<rparr>)"
    using r unfolding s a by blast
qed

theorem deferred_edit_witness:
  "absent toy_world (getChunk 9) (getChunk 2) (getChunk 3) \<and>
   pending_block_changes (setBlock toy_env 9 2 3 5 toy_world) =
     [\<lparr>chunk_x = 1, chunk_y = 0, chunk_z = 0, local_x = 1, local_y = 2, local_z = 3, block = 5\<rparr>] \<and>
   pending_block_changes (fst (generateChunk toy_env 1 0 0 toy_world2)) =
     [\<lparr>chunk_x = 12, chunk_y = 0, chunk_z = 0, local_x = 4, local_y = 0, local_z = 0, block = 9\<rparr>] \<and>
   deref (fst (generateChunk toy_env 1 0 0 toy_world2)) (snd (generateChunk toy_env 1 0 0 toy_world2)) =
     Some \<lparr>Chunk_x = 1, Chunk_y = 0, Chunk_z = 0, Chunk_state = (1, 2, 3, 5)\<rparr>"
proof -
  have a: "absent toy_world (getChunk 9) (getChunk 2) (getChunk 3)" by (rule toy_absent)
  have g: "getChunk 9 = 1" "getChunk 2 = 0" "getChunk 3 = 0" "getChunk 100 = 12" "getChunk 0 = 0"
    "getLocal 9 = 1" "getLocal 2 = 2" "getLocal 3 = 3" "getLocal 100 = 4" "getLocal 0 = 0"
    by (simp_all add: getChunk_def getLocal_def)
  have p1: "pending_block_changes (setBlock toy_env 9 2 3 5 toy_world) =
     [\<lparr>chunk_x = 1, chunk_y = 0, chunk_z = 0, local_x = 1, local_y = 2, local_z = 3, block = 5\<rparr>]"
    using deferred_edit [of toy_world 9 2 3 toy_env 5] a by (simp add: g toy_world_def)
  have "absent (setBlock toy_env 9 2 3 5 toy_world) (getChunk 100) (getChunk 0) (getChunk 0)"
    by (simp add: absent_def setBlock_def findChunk_def toy_world_def Let_def)
  with deferred_edit [of "setBlock toy_env 9 2 3 5 toy_world" 100 0 0 toy_env 9]
  have p2: "pending_block_changes toy_world2 =
     [\<lparr>chunk_x = 1, chunk_y = 0, chunk_z = 0, local_x = 1, local_y = 2, local_z = 3, block = 5\<rparr>,
      \<lparr>chunk_x = 12, chunk_y = 0, chunk_z = 0, local_x = 4, local_y = 0, local_z = 0, block = 9\<rparr>]"
    by (simp add: toy_world2_def p1 g)
  from deferred_edit [of toy_world 9 2 3 toy_env 5 1 0 0] 
  show ?thesis using a p1
    using deferred_edit [of toy_world2 0 0 0 toy_env 0 1 0 0]
    by (simp add: p2) (simp add: toy_env_def)
qed

section \<open>Visibility stability\<close>

text \<open>
  C7.  If the world is loaded and the position maps, after the vertical clamping, to
  the centred chunk coordinate, \<open>setPosition\<close> returns the world as it was: visible
  list, centre, registry and store of chunks are unchanged, so no chunk is generated.
\<close>

theorem setPosition_same_chunk:
  "loaded w \<Longrightarrow>
   getChunk (toBlockCoord e x) = cen_x w \<Longrightarrow>
   std_max 0 (std_min (getChunk (toBlockCoord e y)) (HEIGHT e - 1)) = cen_y w \<Longrightarrow>
   getChunk (toBlockCoord e z) = cen_z w \<Longrightarrow>
   setPosition e x y z w = w"
  by (simp add: setPosition_def)

theorem setPosition_same_chunk_witness:
  "loaded toy_world1 \<and>
   getChunk (toBlockCoord toy_env 700) = cen_x toy_world1 \<and>
   std_max 0 (std_min (getChunk (toBlockCoord toy_env (- 300))) (HEIGHT toy_env - 1)) = cen_y toy_world1 \<and>
   getChunk (toBlockCoord toy_env 5) = cen_z toy_world1 \<and>
   setPosition toy_env 700 (- 300) 5 toy_world1 = toy_world1"
proof -
  have a: "loaded toy_world1" by (simp add: toy_world1_def)
  have b: "getChunk (toBlockCoord toy_env 700) = cen_x toy_world1"
    by (simp add: toy_world1_def toy_env_def getChunk_def)
  have c: "std_max 0 (std_min (getChunk (toBlockCoord toy_env (- 300))) (HEIGHT toy_env - 1)) = cen_y toy_world1"
    by (simp add: toy_world1_def toy_env_def getChunk_def std_max_def std_min_def)
  have d: "getChunk (toBlockCoord toy_env 5) = cen_z toy_world1"
    by (simp add: toy_world1_def toy_env_def getChunk_def)
  from setPosition_same_chunk [OF a b c d] a b c d show ?thesis by simp
qed

section \<open>Reset\<close>

lemma fold_delete_fields:
  "all_chunks (fold delete_Chunk ps w) = all_chunks w \<and>
   pending_block_changes (fold delete_Chunk ps w) = pending_block_changes w \<and>
   seed (fold delete_Chunk ps w) = seed w \<and>
   field_of_view (fold delete_Chunk ps w) = field_of_view w \<and>
   length (store (fold delete_Chunk ps w)) = length (store w)"
  by (induction ps arbitrary: w) (simp_all add: delete_Chunk_def)

lemma deref_fold_delete:
  "deref (fold delete_Chunk ps w) p = (if p \<in> set ps then None else deref w p)"
  by (induction ps arbitrary: w) (auto simp: delete_Chunk_def deref_def nth_list_update)

lemma deref_clear:
  "deref (clear w) p = (if p \<in> set (all_chunks w) then None else deref w p)"
proof -
  have "deref (clear w) p = deref (fold delete_Chunk (all_chunks w) w) p"
    by (simp add: clear_def deref_def)
  then show ?thesis by (simp add: deref_fold_delete)
qed

text \<open>
  C10.  \<open>clear\<close> empties the registry and the visible list and marks the world not
  loaded; every chunk the registry owned is deleted; the pending block changes, the seed
  and the view radius are as before.
\<close>

theorem clear_frame:
  "all_chunks (clear w) = [] \<and> visible_chunks (clear w) = [] \<and> \<not> loaded (clear w) \<and>
   map (deref (clear w)) (all_chunks w) = map (\<lambda>p. None) (all_chunks w) \<and>
   pending_block_changes (clear w) = pending_block_changes w \<and>
   seed (clear w) = seed w \<and>
   field_of_view (clear w) = field_of_view w"
  by (simp add: deref_clear) (simp add: clear_def fold_delete_fields)

section \<open>Pointers and the coordinates they lead to\<close>

lemma coordOf_Some_iff: "coordOf w p = Some (x, y, z) \<longleftrightarrow>
  (\<exists>c. deref w p = Some c \<and> Chunk_x c = x \<and> Chunk_y c = y \<and> Chunk_z c = z)"
  by (auto simp: coordOf_def)

lemma coordOf_None_iff: "coordOf w p = None \<longleftrightarrow> deref w p = None"
  by (simp add: coordOf_def)

lemma coordOf_update [simp]:
  "coordOf (w\<lparr>pending_block_changes := pb\<rparr>) q = coordOf w q"
  "coordOf (w\<lparr>all_chunks := ac\<rparr>) q = coordOf w q"
  "coordOf (w\<lparr>visible_chunks := vc\<rparr>) q = coordOf w q"
  "coordOf (w\<lparr>seed := sd\<rparr>) q = coordOf w q"
  "coordOf (w\<lparr>perlin_noise := pn\<rparr>) q = coordOf w q"
  "coordOf (w\<lparr>field_of_view := fv\<rparr>) q = coordOf w q"
  "coordOf (w\<lparr>loaded := ld\<rparr>) q = coordOf w q"
  "coordOf (w\<lparr>cen_x := c1\<rparr>) q = coordOf w q"
  "coordOf (w\<lparr>cen_y := c2\<rparr>) q = coordOf w q"
  "coordOf (w\<lparr>cen_z := c3\<rparr>) q = coordOf w q"
  by (simp_all add: coordOf_def deref_def)

lemma assign_fields [simp]:
  "pending_block_changes (assign p c w) = pending_block_changes w"
  "all_chunks (assign p c w) = all_chunks w"
  "visible_chunks (assign p c w) = visible_chunks w"
  "field_of_view (assign p c w) = field_of_view w"
  "length (store (assign p c w)) = length (store w)"
  by (simp_all add: assign_def)

lemma coordOf_assign:
  "coordOf (assign p c w) q =
     (if q = p \<and> p < length (store w) then Some (Chunk_x c, Chunk_y c, Chunk_z c) else coordOf w q)"
  by (simp add: coordOf_def deref_def assign_def nth_list_update)

lemma coordOf_assign_same:
  "deref w p = Some c \<Longrightarrow> Chunk_x c' = Chunk_x c \<Longrightarrow> Chunk_y c' = Chunk_y c \<Longrightarrow>
   Chunk_z c' = Chunk_z c \<Longrightarrow> coordOf (assign p c' w) q = coordOf w q"
  by (cases "q = p") (auto simp: coordOf_def deref_def assign_def nth_list_update split: if_splits)

lemma coordOf_setDirtyAt [simp]: "coordOf (setDirtyAt e x y z w) q = coordOf w q"
proof (cases "findChunk w x y z")
  case None
  then show ?thesis by (simp add: setDirtyAt_def)
next
  case (Some pc)
  obtain p c where pc: "pc = (p, c)" by (cases pc)
  from Some pc findChunk_Some [of w x y z p c] have "deref w p = Some c" by simp
  then show ?thesis using Some pc by (simp add: setDirtyAt_def coordOf_assign_same)
qed

lemma coordOf_alloc [simp]:
  "coordOf (w\<lparr>store := store w @ [Some c]\<rparr>) q =
     (if q = length (store w) then Some (Chunk_x c, Chunk_y c, Chunk_z c) else coordOf w q)"
  by (simp add: coordOf_def deref_def nth_append)

lemma fold_applyChange_coords [simp]:
  "Chunk_x (fold (applyChange e) bcs c) = Chunk_x c"
  "Chunk_y (fold (applyChange e) bcs c) = Chunk_y c"
  "Chunk_z (fold (applyChange e) bcs c) = Chunk_z c"
  by (induction bcs arbitrary: c) (simp_all add: applyChange_def)

lemma generateChunk_snd: "snd (generateChunk e x y z w) = length (store w)"
  by (simp add: generateChunk_def Let_def new_Chunk_def split: prod.splits)

lemma generateChunk_fields [simp]:
  "all_chunks (fst (generateChunk e x y z w)) = all_chunks w @ [length (store w)]"
  "visible_chunks (fst (generateChunk e x y z w)) = visible_chunks w"
  "field_of_view (fst (generateChunk e x y z w)) = field_of_view w"
  by (simp_all add: generateChunk_def Let_def new_Chunk_def split: prod.splits)

lemma coordOf_generateChunk:
  "coordOf (fst (generateChunk e x y z w)) q =
     (if q = length (store w) then Some (x, y, z) else coordOf w q)"
  by (simp add: generateChunk_def Let_def new_Chunk_def drainPending_eq coordOf_assign split: prod.splits)

section \<open>The registry invariant\<close>

lemma same_shape_ok: "same_shape w w' \<Longrightarrow> registry_ok w \<Longrightarrow> registry_ok w'"
  by (simp add: same_shape_def registry_ok_def)

lemma same_shape_refl [simp]: "same_shape w w"
  by (simp add: same_shape_def)

lemma same_shape_trans: "same_shape w w' \<Longrightarrow> same_shape w' w'' \<Longrightarrow> same_shape w w''"
  by (simp add: same_shape_def)

lemma same_shape_assign:
  "deref w p = Some c \<Longrightarrow> same_shape w (assign p (c\<lparr>Chunk_state := b\<rparr>) w)"
  by (simp add: same_shape_def coordOf_assign_same)

lemma same_shape_setBlock: "same_shape w (setBlock e x y z blk w)"
proof (cases "findChunk w (getChunk x) (getChunk y) (getChunk z)")
  case None
  then show ?thesis by (simp add: setBlock_def same_shape_def)
next
  case (Some pc)
  obtain p c where pc: "pc = (p, c)" by (cases pc)
  from Some pc findChunk_Some have "deref w p = Some c" by blast
  then show ?thesis using Some pc by (simp add: setBlock_def same_shape_assign)
qed

lemma same_shape_changeBlock: "same_shape w (changeBlock e x y z blk w)"
proof (cases "findChunk w (getChunk x) (getChunk y) (getChunk z)")
  case None
  then show ?thesis by (simp add: changeBlock_def same_shape_def)
next
  case (Some pc)
  obtain p c where pc: "pc = (p, c)" by (cases pc)
  from Some pc findChunk_Some have "deref w p = Some c" by blast
  then show ?thesis using Some pc by (simp add: changeBlock_def same_shape_assign)
qed

lemma same_shape_blockAction: "same_shape w (snd (blockAction e x y z w))"
proof (cases "findChunk w (getChunk x) (getChunk y) (getChunk z)")
  case None
  then show ?thesis by (simp add: blockAction_def)
next
  case (Some pc)
  obtain p c where pc: "pc = (p, c)" by (cases pc)
  from Some pc findChunk_Some have "deref w p = Some c" by blast
  then show ?thesis using Some pc
    by (simp add: blockAction_def Let_def same_shape_assign split: prod.splits)
qed

lemma same_shape_forVisible:
  "forVisible f ps w = Some w' \<Longrightarrow> same_shape w w'"
proof (induction ps arbitrary: w)
  case Nil
  then show ?case by simp
next
  case (Cons p ps)
  from Cons.prems obtain c where d: "deref w p = Some c"
    and r: "forVisible f ps (assign p (c\<lparr>Chunk_state := f w c\<rparr>) w) = Some w'"
    by (auto split: option.splits)
  from same_shape_assign [OF d] Cons.IH [OF r] show ?case by (rule same_shape_trans)
qed

lemma same_shape_render: "render e w = Some w' \<Longrightarrow> same_shape w w'"
  by (auto simp: render_def split: option.splits
      dest!: same_shape_forVisible intro: same_shape_trans)

lemma setChunkVisible_generate:
  assumes "findChunk w x y z = None"
  shows "setChunkVisible e x y z w =
      (fst (generateChunk e x y z w))\<lparr>visible_chunks := visible_chunks w @ [length (store w)]\<rparr>"
proof -
  obtain a b where g: "generateChunk e x y z w = (a, b)" by (cases "generateChunk e x y z w")
  have b: "b = length (store w)" using generateChunk_snd [of e x y z w] g by simp
  have v: "visible_chunks a = visible_chunks w" using generateChunk_fields(2) [of e x y z w] g by simp
  show ?thesis using assms g b v by (simp add: setChunkVisible_def)
qed

lemma setChunkVisible_found:
  assumes "findChunk w x y z = Some (p, c)"
  shows "setChunkVisible e x y z w = w\<lparr>visible_chunks := visible_chunks w @ [p]\<rparr>"
  using assms by (simp add: setChunkVisible_def)

lemma registry_ok_setChunkVisible:
  "registry_ok w \<Longrightarrow> registry_ok (setChunkVisible e x y z w)"
proof (cases "findChunk w x y z")
  case None
  assume ok: "registry_ok w"
  have s: "setChunkVisible e x y z w =
      (fst (generateChunk e x y z w))\<lparr>visible_chunks := visible_chunks w @ [length (store w)]\<rparr>"
    by (rule setChunkVisible_generate [OF None])
  have "\<forall>p\<in>set (all_chunks w). p \<noteq> length (store w)"
    using ok by (auto simp: registry_ok_def list_all_iff coordOf_def deref_def)
  then show ?thesis using ok unfolding s
    by (auto simp: registry_ok_def list_all_iff coordOf_generateChunk)
next
  case (Some pc)
  assume ok: "registry_ok w"
  obtain p c where pc: "pc = (p, c)" by (cases pc)
  from Some pc findChunk_Some have "p \<in> set (all_chunks w)" by blast
  then show ?thesis using Some pc ok
    by (simp add: setChunkVisible_def registry_ok_def list_all_iff)
qed

lemma registry_ok_visit: "registry_ok w \<Longrightarrow> registry_ok (visit e cx cy cz d xyz w)"
  by (cases xyz) (simp add: visit_def registry_ok_setChunkVisible)

lemma registry_ok_fold_visit:
  "registry_ok w \<Longrightarrow> registry_ok (fold (visit e cx cy cz d) xs w)"
  by (induction xs arbitrary: w) (simp_all add: registry_ok_visit)

lemma registry_ok_shell: "registry_ok w \<Longrightarrow> registry_ok (shell e cx cy cz d w)"
  unfolding shell_def by (rule registry_ok_fold_visit)

lemma registry_ok_fold_shell:
  "registry_ok w \<Longrightarrow> registry_ok (fold (shell e cx cy cz) ds w)"
  by (induction ds arbitrary: w) (simp_all add: registry_ok_shell)

lemma registry_ok_setPosition: "registry_ok w \<Longrightarrow> registry_ok (setPosition e x y z w)"
proof -
  assume ok: "registry_ok w"
  have a: "registry_ok (w\<lparr>visible_chunks := []\<rparr>)"
    using ok by (simp add: registry_ok_def)
  have b: "registry_ok v \<Longrightarrow> registry_ok (v\<lparr>cen_x := a, cen_y := b, cen_z := c, loaded := True\<rparr>)"
    for v :: "'a World" and a b c by (simp add: registry_ok_def)
  show ?thesis
    unfolding setPosition_def Let_def
    by (auto intro!: b registry_ok_fold_shell registry_ok_setChunkVisible a simp: ok)
qed

lemma registry_ok_clear: "registry_ok (clear w)"
  by (simp add: registry_ok_def clear_def)

lemma registry_ok_loadChunkRecord:
  "registry_ok w \<Longrightarrow> registry_ok (fst (snd (loadChunkRecord e w f)))"
proof -
  assume ok: "registry_ok w"
  then have fresh: "\<forall>p\<in>set (all_chunks w). p \<noteq> length (store w)"
    by (auto simp: registry_ok_def list_all_iff coordOf_def deref_def)
  have del: "coordOf (delete_Chunk p v) q = (if q = p then None else coordOf v q)" for p q and v :: "'a World"
    by (auto simp: delete_Chunk_def coordOf_def deref_def nth_list_update)
  have delete_fields: "all_chunks (delete_Chunk p v) = all_chunks v"
    "visible_chunks (delete_Chunk p v) = visible_chunks v" for p and v :: "'a World"
    by (simp_all add: delete_Chunk_def)
  show ?thesis using ok fresh
    by (auto simp: loadChunkRecord_def Let_def new_Chunk_def registry_ok_def list_all_iff
        coordOf_assign del delete_fields split: prod.splits)
qed

lemma registry_ok_loadChunks:
  "registry_ok w \<Longrightarrow> registry_ok (fst (snd (loadChunks e w f)))"
proof (induction e w f rule: loadChunks.induct)
  case (1 e w f)
  show ?case
  proof (cases "eof f")
    case True
    then show ?thesis using "1.prems" by (simp add: loadChunks.simps [of e w f])
  next
    case False
    obtain go w' f' where r: "loadChunkRecord e w f = (go, w', f')"
      by (cases "loadChunkRecord e w f") auto
    have ok': "registry_ok w'" using registry_ok_loadChunkRecord [OF "1.prems", of e f] r by simp
    show ?thesis
    proof (cases go)
      case True
      then have t: "go = True" by simp
      from "1.IH" [OF False r [symmetric] t refl ok'] show ?thesis
        using False r True by (simp add: loadChunks.simps [of e w f])
    next
      case False
      then show ?thesis using \<open>\<not> eof f\<close> r ok' by (simp add: loadChunks.simps [of e w f])
    qed
  qed
qed

lemma registry_ok_loadFromFile:
  "registry_ok w \<Longrightarrow> registry_ok (fst (snd (loadFromFile e w f)))"
proof -
  assume ok: "registry_ok w"
  have u: "registry_ok (v\<lparr>seed := a\<rparr>) = registry_ok v"
    "registry_ok (v\<lparr>perlin_noise := a\<rparr>) = registry_ok v"
    "registry_ok (v\<lparr>pending_block_changes := b\<rparr>) = registry_ok v"
    "registry_ok (v\<lparr>field_of_view := c\<rparr>) = registry_ok v"
    for v :: "'a World" and a b c by (simp_all add: registry_ok_def)
  have c: "registry_ok w6" if "loadChunks e v g = (r, w6, f5)" "registry_ok v"
    for v w6 :: "'a World" and g r f5
    using registry_ok_loadChunks [OF that(2), of e g] that(1) by simp
  show ?thesis using ok
    by (auto simp add: loadFromFile_def Let_def u split: prod.splits option.splits
        intro: c [unfolded u])
qed

lemma registry_ok_step: "registry_ok w \<Longrightarrow> step e opn w = Some w' \<Longrightarrow> registry_ok w'"
proof (cases opn)
  case (SetBlock x y z blk)
  assume "registry_ok w" "step e opn w = Some w'"
  then show ?thesis using SetBlock same_shape_ok [OF same_shape_setBlock] by auto
next
  case (ChangeBlock x y z blk)
  assume "registry_ok w" "step e opn w = Some w'"
  then show ?thesis using ChangeBlock same_shape_ok [OF same_shape_changeBlock] by auto
next
  case (BlockAction x y z)
  assume "registry_ok w" "step e opn w = Some w'"
  then show ?thesis using BlockAction same_shape_ok [OF same_shape_blockAction] by auto
next
  case (SetPosition x y z)
  assume "registry_ok w" "step e opn w = Some w'"
  then show ?thesis using SetPosition registry_ok_setPosition by auto
next
  case Render
  assume "registry_ok w" "step e opn w = Some w'"
  then show ?thesis using Render same_shape_ok [OF same_shape_render] by auto
next
  case Clear
  assume "registry_ok w" "step e opn w = Some w'"
  then show ?thesis using Clear registry_ok_clear by auto
next
  case (LoadFromFile f)
  assume "registry_ok w" "step e opn w = Some w'"
  then show ?thesis using LoadFromFile registry_ok_loadFromFile by auto
next
  case (GenerateSeed v)
  assume "registry_ok w" "step e opn w = Some w'"
  then show ?thesis using GenerateSeed by (auto simp: generateSeed_def registry_ok_def)
qed

lemma reachable_registry_ok: "reachable e w \<Longrightarrow> registry_ok w"
proof (induction rule: reachable.induct)
  case (constructed w)
  then show ?case by (simp add: registry_ok_def)
next
  case (operation w opn w')
  then show ?case by (blast intro: registry_ok_step)
qed

text \<open>
  C9.  In every world that the public operations build from a constructed world, each
  entry of \<open>visible_chunks\<close> is an entry of \<open>all_chunks\<close>, and each entry of
  \<open>all_chunks\<close> points to a live chunk object: no visible pointer dangles.
\<close>

theorem visible_subset_registry:
  "reachable e w \<Longrightarrow>
     set (visible_chunks w) \<subseteq> set (all_chunks w) \<and> (\<forall>p\<in>set (all_chunks w). deref w p \<noteq> None)"
proof -
  assume "reachable e w"
  then have "registry_ok w" by (rule reachable_registry_ok)
  then show ?thesis by (auto simp: registry_ok_def list_all_iff coordOf_def)
qed

theorem visible_subset_registry_witness:
  "reachable toy_env (clear (setPosition toy_env 0 0 0 toy_world)) \<and>
   reachable toy_env (setPosition toy_env 0 0 0 toy_world) \<and>
   set (visible_chunks (setPosition toy_env 0 0 0 toy_world))
     \<subseteq> set (all_chunks (setPosition toy_env 0 0 0 toy_world)) \<and>
   list_all (\<lambda>p. deref (setPosition toy_env 0 0 0 toy_world) p \<noteq> None)
     (all_chunks (setPosition toy_env 0 0 0 toy_world))"
proof -
  have c: "reachable toy_env toy_world"
    by (rule reachable.constructed) (simp_all add: toy_world_def)
  have r: "reachable toy_env (setPosition toy_env 0 0 0 toy_world)"
    by (rule reachable.operation [OF c, of "SetPosition 0 0 0"]) simp
  have r': "reachable toy_env (clear (setPosition toy_env 0 0 0 toy_world))"
    by (rule reachable.operation [OF r, of Clear]) simp
  from visible_subset_registry [OF r] r r' show ?thesis by (simp add: list_all_iff)
qed

section \<open>Ray intersection: proofs\<close>

lemma rayLoop_fold:
  "list_all (\<lambda>p. deref w p \<noteq> None) ps \<Longrightarrow>
   \<exists>pos'. rayLoop re w ray ps (sh, pos, res, sd) =
     Some (fst (fold pickHit (rayHits re w ray ps pos) (sh, res, sd)), pos',
           snd (fold pickHit (rayHits re w ray ps pos) (sh, res, sd)))"
proof (induction ps arbitrary: sh pos res sd)
  case Nil
  then show ?case by simp
next
  case (Cons p ps)
  from Cons.prems obtain c where d: "deref w p = Some c" and l: "list_all (\<lambda>p. deref w p \<noteq> None) ps"
    by auto
  obtain hit nd pos1 ns where h: "Chunk_intersectsRay re c ray pos = (hit, nd, pos1, ns)"
    by (cases "Chunk_intersectsRay re c ray pos") auto
  show ?case
  proof (cases "hit \<and> \<not> nd > sh")
    case True
    from Cons.IH [OF l, of nd pos1 "toWorld re c pos1" ns] show ?thesis
      using d h True by (simp add: pickHit_def)
  next
    case False
    from Cons.IH [OF l, of sh pos1 res sd] show ?thesis
      using d h False by (auto simp: pickHit_def)
  qed
qed

lemma fold_pickHit:
  assumes top: "\<forall>d. d \<le> (m::'d::linorder)"
  shows "(hs = [] \<longrightarrow> fold pickHit hs (m, r0, s0) = (m, r0, s0)) \<and>
    (hs \<noteq> [] \<longrightarrow> (\<exists>i<length hs. fold pickHit hs (m, r0, s0) = hs ! i \<and>
       (\<forall>j<length hs. fst (hs ! i) \<le> fst (hs ! j)) \<and>
       (\<forall>j<length hs. i < j \<longrightarrow> fst (hs ! i) < fst (hs ! j))))"
proof (induction hs rule: rev_induct)
  case Nil
  then show ?case by simp
next
  case (snoc h hs)
  show ?case
  proof (cases "hs = []")
    case True
    have "\<not> fst h > m" using top by (simp add: not_less)
    then show ?thesis using True by (simp add: pickHit_def)
  next
    case False
    with snoc obtain i where i: "i < length hs" "fold pickHit hs (m, r0, s0) = hs ! i"
      "\<forall>j<length hs. fst (hs ! i) \<le> fst (hs ! j)"
      "\<forall>j<length hs. i < j \<longrightarrow> fst (hs ! i) < fst (hs ! j)" by blast
    show ?thesis
    proof (cases "fst h > fst (hs ! i)")
      case True
      have "fold pickHit (hs @ [h]) (m, r0, s0) = (hs @ [h]) ! i"
        using i True by (simp add: pickHit_def nth_append)
      moreover have "\<forall>j<length (hs @ [h]). fst ((hs @ [h]) ! i) \<le> fst ((hs @ [h]) ! j)"
        using i True by (auto simp: nth_append less_Suc_eq)
      moreover have "\<forall>j<length (hs @ [h]). i < j \<longrightarrow> fst ((hs @ [h]) ! i) < fst ((hs @ [h]) ! j)"
        using i True by (auto simp: nth_append less_Suc_eq)
      ultimately show ?thesis using i(1) by (intro conjI impI) (simp, rule exI [of _ i], simp)
    next
      case False
      then have le: "fst h \<le> fst (hs ! i)" by simp
      have "fold pickHit (hs @ [h]) (m, r0, s0) = (hs @ [h]) ! (length hs)"
        using i False by (simp add: pickHit_def)
      moreover have "\<forall>j<length (hs @ [h]). fst ((hs @ [h]) ! (length hs)) \<le> fst ((hs @ [h]) ! j)"
        using i le by (auto simp: nth_append less_Suc_eq intro: order_trans)
      moreover have "\<forall>j<length (hs @ [h]). length hs < j \<longrightarrow> fst ((hs @ [h]) ! (length hs)) < fst ((hs @ [h]) ! j)"
        by auto
      ultimately show ?thesis by (intro conjI impI) (simp, rule exI [of _ "length hs"], simp)
    qed
  qed
qed

text \<open>
  C3, as the code has it.  Let the distance sentinel be the largest distance and let
  every visible pointer be live.  Then \<open>intersectsRay\<close> returns; with \<open>hits\<close> the hits
  reported by the visible chunks in the order of the visible list (each with its local
  position moved by the chunk coordinate times 8), the returned position and side are
  those of a hit of smallest distance, and among hits of equal smallest distance those of
  the last one in the order of the visible list; with no hit the outputs are untouched.
  The result is true exactly when some reported hit has a distance other than the
  sentinel.
\<close>

theorem intersectsRay_nearest_last:
  assumes "\<forall>d. d \<le> GLFix_maxValue re"
    and "\<forall>p\<in>set (visible_chunks w). deref w p \<noteq> None"
  shows "\<exists>r res sd. intersectsRay re w ray pos0 result side = Some (r, res, sd) \<and>
    (r \<longleftrightarrow> (\<exists>h\<in>set (rayHits re w ray (visible_chunks w) pos0). fst h \<noteq> GLFix_maxValue re)) \<and>
    (rayHits re w ray (visible_chunks w) pos0 = [] \<longrightarrow> res = result \<and> sd = side) \<and>
    (rayHits re w ray (visible_chunks w) pos0 \<noteq> [] \<longrightarrow>
      (\<exists>i<length (rayHits re w ray (visible_chunks w) pos0).
         snd (rayHits re w ray (visible_chunks w) pos0 ! i) = (res, sd) \<and>
         (\<forall>j<length (rayHits re w ray (visible_chunks w) pos0).
            fst (rayHits re w ray (visible_chunks w) pos0 ! i)
              \<le> fst (rayHits re w ray (visible_chunks w) pos0 ! j)) \<and>
         (\<forall>j<length (rayHits re w ray (visible_chunks w) pos0). i < j \<longrightarrow>
            fst (rayHits re w ray (visible_chunks w) pos0 ! i)
              < fst (rayHits re w ray (visible_chunks w) pos0 ! j))))"
proof -
  define hs where "hs = rayHits re w ray (visible_chunks w) pos0"
  define m where "m = GLFix_maxValue re"
  define out where "out = fold pickHit hs (m, result, side)"
  have top: "\<forall>d. d \<le> m" using assms(1) by (simp add: m_def)
  have live: "list_all (\<lambda>p. deref w p \<noteq> None) (visible_chunks w)"
    using assms(2) by (simp add: list_all_iff)
  from rayLoop_fold [OF live, of re ray m pos0 result side]
  obtain pos' where l: "rayLoop re w ray (visible_chunks w) (m, pos0, result, side) =
      Some (fst out, pos', snd out)"
    by (auto simp: out_def hs_def)
  have res: "intersectsRay re w ray pos0 result side = Some (fst out \<noteq> m, fst (snd out), snd (snd out))"
    using l by (simp add: intersectsRay_def m_def [symmetric] split: prod.splits)
  note f = fold_pickHit [OF top, of hs result side, folded out_def]
  have e: "hs = [] \<longrightarrow> fst (snd out) = result \<and> snd (snd out) = side"
    using f by auto
  have n: "hs \<noteq> [] \<longrightarrow> (\<exists>i<length hs. snd (hs ! i) = (fst (snd out), snd (snd out)) \<and>
       (\<forall>j<length hs. fst (hs ! i) \<le> fst (hs ! j)) \<and>
       (\<forall>j<length hs. i < j \<longrightarrow> fst (hs ! i) < fst (hs ! j)))"
  proof
    assume "hs \<noteq> []"
    with f obtain i where i: "i < length hs" "out = hs ! i"
       "\<forall>j<length hs. fst (hs ! i) \<le> fst (hs ! j)"
       "\<forall>j<length hs. i < j \<longrightarrow> fst (hs ! i) < fst (hs ! j)" by blast
    have "snd (hs ! i) = (fst (snd out), snd (snd out))" using i(2) by simp
    with i show "\<exists>i<length hs. snd (hs ! i) = (fst (snd out), snd (snd out)) \<and>
       (\<forall>j<length hs. fst (hs ! i) \<le> fst (hs ! j)) \<and>
       (\<forall>j<length hs. i < j \<longrightarrow> fst (hs ! i) < fst (hs ! j))" by blast
  qed
  have r: "fst out \<noteq> m \<longleftrightarrow> (\<exists>h\<in>set hs. fst h \<noteq> m)"
  proof (cases "hs = []")
    case True
    then show ?thesis using f by simp
  next
    case False
    with f obtain i where i: "i < length hs" "out = hs ! i"
       "\<forall>j<length hs. fst (hs ! i) \<le> fst (hs ! j)" by blast
    show ?thesis
    proof
      assume "fst out \<noteq> m"
      then show "\<exists>h\<in>set hs. fst h \<noteq> m" using i(1,2) nth_mem [OF i(1)] by auto
    next
      assume "\<exists>h\<in>set hs. fst h \<noteq> m"
      then obtain j where j: "j < length hs" "fst (hs ! j) \<noteq> m"
        by (auto simp: in_set_conv_nth)
      have "fst (hs ! j) < m" using j(2) top by (simp add: order_less_le)
      moreover have "fst out \<le> fst (hs ! j)" using i j by simp
      ultimately show "fst out \<noteq> m" by auto
    qed
  qed
  show ?thesis
    unfolding hs_def [symmetric] m_def [symmetric] res
    using r e n by blast
qed

theorem intersectsRay_nearest_last_witness:
  "(\<forall>d. d \<le> GLFix_maxValue toy_ray_env) \<and>
   list_all (\<lambda>p. deref toy_world3 p \<noteq> None) (visible_chunks toy_world3) \<and>
   (\<exists>r res sd. intersectsRay toy_ray_env toy_world3 ()
        \<lparr>Position_x = 0, Position_y = 0, Position_z = 0\<rparr>
        \<lparr>Position_x = 0, Position_y = 0, Position_z = 0\<rparr> 0 = Some (r, res, sd) \<and> r)"
proof -
  have a: "\<forall>d. d \<le> GLFix_maxValue toy_ray_env" by (simp add: toy_ray_env_def)
  have b: "\<forall>p\<in>set (visible_chunks toy_world3). deref toy_world3 p \<noteq> None"
    by (simp add: toy_world3_def deref_def)
  have h: "rayHits toy_ray_env toy_world3 () (visible_chunks toy_world3)
      \<lparr>Position_x = 0, Position_y = 0, Position_z = 0\<rparr> =
     [(5, \<lparr>Position_x = 5, Position_y = 0, Position_z = 0\<rparr>, 1),
      (5, \<lparr>Position_x = 13, Position_y = 0, Position_z = 0\<rparr>, 2)]"
    by (simp add: toy_world3_def deref_def toy_ray_env_def toWorld_def)
  from intersectsRay_nearest_last [OF a b, of "()" "\<lparr>Position_x = 0, Position_y = 0, Position_z = 0\<rparr>"
      "\<lparr>Position_x = 0, Position_y = 0, Position_z = 0\<rparr>" 0]
  show ?thesis using a b unfolding h by (auto simp: list_all_iff toy_ray_env_def)
qed

text \<open>
  The claim as stated fails.  Two visible chunks report a hit at the same distance 5:
  the position and side returned are those of the second chunk of the visible list, not
  of the first.  And a visible chunk that reports a hit at the sentinel distance makes
  \<open>intersectsRay\<close> return false although a hit was reported.
\<close>

theorem intersectsRay_tie_counterexample:
  "rayHits toy_ray_env toy_world3 () (visible_chunks toy_world3)
      \<lparr>Position_x = 0, Position_y = 0, Position_z = 0\<rparr> =
     [(5, \<lparr>Position_x = 5, Position_y = 0, Position_z = 0\<rparr>, 1),
      (5, \<lparr>Position_x = 13, Position_y = 0, Position_z = 0\<rparr>, 2)] \<and>
   intersectsRay toy_ray_env toy_world3 ()
      \<lparr>Position_x = 0, Position_y = 0, Position_z = 0\<rparr>
      \<lparr>Position_x = 0, Position_y = 0, Position_z = 0\<rparr> 0 =
     Some (True, \<lparr>Position_x = 13, Position_y = 0, Position_z = 0\<rparr>, 2) \<and>
   rayHits toy_ray_env toy_world4 () (visible_chunks toy_world4)
      \<lparr>Position_x = 0, Position_y = 0, Position_z = 0\<rparr> =
     [(GLFix_maxValue toy_ray_env, \<lparr>Position_x = - 1, Position_y = 0, Position_z = 0\<rparr>, 1)] \<and>
   intersectsRay toy_ray_env toy_world4 ()
      \<lparr>Position_x = 0, Position_y = 0, Position_z = 0\<rparr>
      \<lparr>Position_x = 0, Position_y = 0, Position_z = 0\<rparr> 0 =
     Some (False, \<lparr>Position_x = - 1, Position_y = 0, Position_z = 0\<rparr>, 1)"
  by (simp add: toy_world3_def toy_world4_def deref_def toy_ray_env_def toWorld_def intersectsRay_def)

section \<open>Persistence: proofs\<close>














text \<open>The bytes of \<open>- 1\<close>, and the definitions that evaluate \<open>loadFromFile\<close> on a concrete stream.\<close>

lemma ucast_ones:
  "(ucast (- 1 :: 32 word) :: 8 word) = 255"
  "(ucast (mask 24 :: 32 word) :: 8 word) = 255"
  "(ucast (mask 16 :: 32 word) :: 8 word) = 255"
  "(ucast (mask 8 :: 32 word) :: 8 word) = 255"
  by code_simp+


lemmas toy_load = loadFromFile_def LOAD_FROM_FILE_def fread_def Let_def bytes_of_int_def int_of_bytes_def
  resize_def toy_env_def toy_world_def sizeof_BLOCK_CHANGE_def changes_of_bytes_def bytes_of_changes_def
  bytes_of_change_def change_of_bytes_def bytes_of_block_def block_of_bytes_def
  loadChunks.simps loadChunkRecord_def new_Chunk_def assign_def delete_Chunk_def toy_of_bytes_def




text \<open>
  C1 fails on the code.  A world with a seed, one pending change, a view radius and one
  chunk is saved; loading the bytes written into a fresh world restores the seed, the
  pending change, the radius and the chunk, and then returns false: after the last chunk
  record the end-of-file indicator is still clear, the loop is entered once more and the
  read of the next coordinate comes up short.
\<close>

theorem save_load_returns_false:
  "saveToFile toy_env toy_world5 \<lparr>written = [], room = 1000\<rparr> =
     (True,
      \<lparr>written =
         [42, 0, 0, 0, 1, 0, 0, 0, 12, 0, 0, 0, 0, 0, 0, 0, 255, 255, 255, 255,
          4, 0, 0, 0, 0, 0, 0, 0, 7, 0, 0, 0, 9, 0, 0, 0, 3, 0, 0, 0, 0, 0, 0,
          0, 0, 0, 0, 0, 0, 0, 0, 0, 1, 0, 0, 0, 2, 0, 0, 0, 3, 0, 0, 0, 9, 0],
       room = 934\<rparr>) \<and>
   loadFromFile toy_env toy_world
     \<lparr>content =
         [42, 0, 0, 0, 1, 0, 0, 0, 12, 0, 0, 0, 0, 0, 0, 0, 255, 255, 255, 255,
          4, 0, 0, 0, 0, 0, 0, 0, 7, 0, 0, 0, 9, 0, 0, 0, 3, 0, 0, 0, 0, 0, 0,
          0, 0, 0, 0, 0, 0, 0, 0, 0, 1, 0, 0, 0, 2, 0, 0, 0, 3, 0, 0, 0, 9, 0],
      eof = False\<rparr> =
     (Returns False,
      \<lparr>seed = 42, perlin_noise = 42,
       store = [Some \<lparr>Chunk_x = 0, Chunk_y = 0, Chunk_z = 0, Chunk_state = (1, 2, 3, 9)\<rparr>],
       all_chunks = [0], visible_chunks = [],
       pending_block_changes =
         [\<lparr>chunk_x = 12, chunk_y = 0, chunk_z = - 1, local_x = 4, local_y = 0, local_z = 7, block = 9\<rparr>],
       field_of_view = 3, loaded = False, cen_x = 0, cen_y = 0, cen_z = 0\<rparr>,
      \<lparr>content = [], eof = True\<rparr>)"
proof -
  have s: "saveToFile toy_env toy_world5 \<lparr>written = [], room = 1000\<rparr> =
     (True,
      \<lparr>written =
         [42, 0, 0, 0, 1, 0, 0, 0, 12, 0, 0, 0, 0, 0, 0, 0, 255, 255, 255, 255,
          4, 0, 0, 0, 0, 0, 0, 0, 7, 0, 0, 0, 9, 0, 0, 0, 3, 0, 0, 0, 0, 0, 0,
          0, 0, 0, 0, 0, 0, 0, 0, 0, 1, 0, 0, 0, 2, 0, 0, 0, 3, 0, 0, 0, 9, 0],
       room = 934\<rparr>)"
    by (simp add: saveToFile_def SAVE_TO_FILE_def fwrite_def Let_def bytes_of_int_def
        bytes_of_changes_def bytes_of_change_def bytes_of_block_def sizeof_BLOCK_CHANGE_def
        deref_def toy_env_def toy_world5_def toy_bytes_def ucast_ones)
  show ?thesis unfolding s by (simp add: toy_load)
qed

section \<open>The rounded square root\<close>

lemma sqrt_from_spec:
  "0 \<le> r \<Longrightarrow> r * r \<le> n \<Longrightarrow>
     r \<le> sqrt_from n r \<and> sqrt_from n r * sqrt_from n r \<le> n \<and>
     n < (sqrt_from n r + 1) * (sqrt_from n r + 1)"
proof (induction n r rule: sqrt_from.induct)
  case (1 n r)
  show ?case
  proof (cases "(r + 1) * (r + 1) \<le> n")
    case True
    with "1.prems" have s: "sqrt_from n r = sqrt_from n (r + 1)"
      by (simp add: sqrt_from.simps [of n r])
    from "1.IH" True "1.prems" have "r + 1 \<le> sqrt_from n (r + 1) \<and>
      sqrt_from n (r + 1) * sqrt_from n (r + 1) \<le> n \<and>
      n < (sqrt_from n (r + 1) + 1) * (sqrt_from n (r + 1) + 1)" by simp
    then show ?thesis unfolding s by simp
  next
    case False
    with "1.prems" have "sqrt_from n r = r" by (simp add: sqrt_from.simps [of n r])
    with False "1.prems" show ?thesis by simp
  qed
qed

lemma sq_mono: "0 \<le> a \<Longrightarrow> a \<le> b \<Longrightarrow> a * a \<le> b * (b::int)"
  by (rule mult_mono) auto

lemma shell_unique:
  assumes "0 \<le> d" "0 \<le> d'" "d * d - d < n" "n \<le> d * d + d" "d' * d' - d' < n" "n \<le> d' * d' + (d'::int)"
  shows "d = d'"
proof (rule ccontr)
  assume "d \<noteq> d'"
  then consider "d + 1 \<le> d'" | "d' + 1 \<le> d" by linarith
  then show False
  proof cases
    case 1
    have "0 \<le> (d' - (d + 1)) * (d' + d)" using assms(1,2) 1 by (intro mult_nonneg_nonneg) auto
    then have "d * d + d \<le> d' * d' - d'" by (simp add: algebra_simps)
    with assms show False by linarith
  next
    case 2
    have "0 \<le> (d - (d' + 1)) * (d + d')" using assms(1,2) 2 by (intro mult_nonneg_nonneg) auto
    then have "d' * d' + d' \<le> d * d - d" by (simp add: algebra_simps)
    with assms show False by linarith
  qed
qed

lemma round_sqrt_spec:
  assumes "0 \<le> n"
  shows "0 \<le> round_sqrt n \<and> (n = 0 \<longrightarrow> round_sqrt n = 0) \<and>
    (0 < n \<longrightarrow> round_sqrt n * round_sqrt n - round_sqrt n < n \<and> n \<le> round_sqrt n * round_sqrt n + round_sqrt n)"
proof -
  define r where "r = sqrt_from n 0"
  from sqrt_from_spec [of 0 n] assms have r: "0 \<le> r" "r * r \<le> n" "n < (r + 1) * (r + 1)"
    by (simp_all add: r_def)
  show ?thesis
  proof (cases "n - r * r \<le> r")
    case True
    then have e: "round_sqrt n = r" by (simp add: round_sqrt_def r_def [symmetric])
    have "0 < n \<Longrightarrow> r * r - r < n"
    proof -
      assume "0 < n"
      show ?thesis
      proof (cases "r = 0")
        case True then show ?thesis using \<open>0 < n\<close> by simp
      next
        case False
        then have "0 < r" using r(1) by simp
        then show ?thesis using r(2) by linarith
      qed
    qed
    moreover have "n = 0 \<Longrightarrow> r = 0"
    proof -
      assume "n = 0"
      then have "r * r \<le> 0" using r(2) by simp
      then show ?thesis by (simp add: mult_le_0_iff) (use r(1) in linarith)
    qed
    ultimately show ?thesis using e r True by auto
  next
    case False
    then have e: "round_sqrt n = r + 1" by (simp add: round_sqrt_def r_def [symmetric])
    have "(r + 1) * (r + 1) - (r + 1) < n" using False by (simp add: algebra_simps)
    moreover have "n \<le> (r + 1) * (r + 1) + (r + 1)"
    proof -
      have "n \<le> (r + 1) * (r + 1)" using r(3) by simp
      also have "\<dots> \<le> (r + 1) * (r + 1) + (r + 1)" using r(1) by simp
      finally show ?thesis .
    qed
    moreover have "n \<noteq> 0"
    proof
      assume "n = 0"
      have "0 \<le> r * r" by simp
      with \<open>n = 0\<close> False r(1) show False by linarith
    qed
    ultimately show ?thesis using e r by auto
  qed
qed

lemma round_sqrt_nonneg: "0 \<le> n \<Longrightarrow> 0 \<le> round_sqrt n"
  using round_sqrt_spec by blast

lemma round_sqrt_0 [simp]: "round_sqrt 0 = 0"
  using round_sqrt_spec [of 0] by simp

lemma round_sqrt_eq_0_iff: "0 \<le> n \<Longrightarrow> round_sqrt n = 0 \<longleftrightarrow> n = 0"
  using round_sqrt_spec [of n] by (cases "n = 0") auto

lemma round_sqrt_iff:
  assumes "0 < n" "0 \<le> d"
  shows "round_sqrt n = d \<longleftrightarrow> d * d - d < n \<and> n \<le> d * d + d"
proof
  assume "round_sqrt n = d"
  then show "d * d - d < n \<and> n \<le> d * d + d" using round_sqrt_spec [of n] assms by auto
next
  assume a: "d * d - d < n \<and> n \<le> d * d + d"
  from round_sqrt_spec [of n] assms
  have "0 \<le> round_sqrt n" "round_sqrt n * round_sqrt n - round_sqrt n < n"
    "n \<le> round_sqrt n * round_sqrt n + round_sqrt n" by auto
  then show "round_sqrt n = d" using a assms(2) by (intro shell_unique [of _ _ n]) auto
qed

text \<open>The rounded root is the rounded real square root, as \<^verbatim>\<open>round(sqrt(n))\<close> computes it.\<close>

lemma round_sqrt_real:
  assumes "0 \<le> n"
  shows "round (sqrt (real_of_int n)) = round_sqrt n"
proof (cases "n = 0")
  case True
  then show ?thesis by simp
next
  case False
  define d where "d = round_sqrt n"
  from False assms round_sqrt_spec [of n]
  have d: "0 \<le> d" "d * d - d < n" "n \<le> d * d + d" by (auto simp: d_def)
  have i1: "d * d - d + 1 \<le> n" using d(2) by linarith
  have up: "real_of_int n < (real_of_int d + 1 / 2)\<^sup>2"
  proof -
    have "real_of_int n \<le> real_of_int (d * d + d)" using d(3) by (simp only: of_int_le_iff)
    also have "\<dots> < (real_of_int d + 1 / 2)\<^sup>2" by (simp add: power2_eq_square algebra_simps)
    finally show ?thesis .
  qed
  have lo: "(real_of_int d - 1 / 2)\<^sup>2 \<le> real_of_int n"
  proof -
    have "(real_of_int d - 1 / 2)\<^sup>2 \<le> real_of_int (d * d - d + 1)"
      by (simp add: power2_eq_square algebra_simps)
    also have "\<dots> \<le> real_of_int n" using i1 by (simp only: of_int_le_iff)
    finally show ?thesis .
  qed
  have a: "sqrt (real_of_int n) < real_of_int d + 1 / 2"
    using up d(1) by (intro real_less_lsqrt) auto
  have b: "real_of_int d - 1 / 2 \<le> sqrt (real_of_int n)"
    using lo by (rule real_le_rsqrt)
  have "round (sqrt (real_of_int n)) = d"
    using a b by (intro round_unique) auto
  then show ?thesis by (simp add: d_def)
qed

section \<open>The offsets of a shell\<close>

lemma offsets_product: "offsets d = List.product [- d..d] (List.product [- d..d] [- d..d])"
  by (simp add: offsets_def List.product_concat_map map_concat comp_def)

lemma set_offsets:
  "set (offsets d) = {(x, y, z). - d \<le> x \<and> x \<le> d \<and> - d \<le> y \<and> y \<le> d \<and> - d \<le> z \<and> z \<le> d}"
  by (auto simp: offsets_product)

lemma distinct_offsets: "distinct (offsets d)"
  by (simp add: offsets_product distinct_product)

lemma sum_squares_nonneg: "0 \<le> x * x + y * y + z * (z::int)"
  by (simp add: add_nonneg_nonneg)

lemma sum_squares_0: "x * x + y * y + z * (z::int) = 0 \<longleftrightarrow> x = 0 \<and> y = 0 \<and> z = 0"
proof
  assume a: "x * x + y * y + z * z = 0"
  have "0 \<le> x * x" "0 \<le> y * y" "0 \<le> z * z" by simp_all
  with a have "x * x = 0" "y * y = 0" "z * z = 0" by linarith+
  then show "x = 0 \<and> y = 0 \<and> z = 0" by simp
qed simp

lemma abs_le_of_square:
  assumes "x * x \<le> d * d + d" "0 \<le> (d::int)"
  shows "- d \<le> x \<and> x \<le> d"
proof -
  have "\<bar>x\<bar> \<le> d"
  proof (rule ccontr)
    assume "\<not> \<bar>x\<bar> \<le> d"
    then have "d + 1 \<le> \<bar>x\<bar>" by simp
    then have "(d + 1) * (d + 1) \<le> \<bar>x\<bar> * \<bar>x\<bar>" using assms(2) by (intro mult_mono) auto
    then have "(d + 1) * (d + 1) \<le> x * x" by (simp add: abs_mult_self_eq)
    with assms show False by (simp add: algebra_simps)
  qed
  then show ?thesis by auto
qed

lemma shell_in_cube:
  assumes "round_sqrt (x * x + y * y + z * z) = d"
  shows "(x, y, z) \<in> set (offsets d)"
proof (cases "x * x + y * y + z * z = 0")
  case True
  then have "x = 0 \<and> y = 0 \<and> z = 0" by (simp only: sum_squares_0)
  moreover have "d = 0" using assms unfolding True by simp
  ultimately show ?thesis by (simp add: set_offsets)
next
  case False
  define n where "n = x * x + y * y + z * z"
  have pos: "0 < n" using sum_squares_nonneg [of x y z] False unfolding n_def by linarith
  have rd: "round_sqrt n = d" using assms by (simp only: n_def)
  from round_sqrt_spec [of n] pos
  have "0 \<le> round_sqrt n" "n \<le> round_sqrt n * round_sqrt n + round_sqrt n" by simp_all
  then have d: "0 \<le> d" "n \<le> d * d + d" unfolding rd by simp_all
  have "x * x \<le> n" "y * y \<le> n" "z * z \<le> n" unfolding n_def by simp_all
  with d(2) have q: "x * x \<le> d * d + d" "y * y \<le> d * d + d" "z * z \<le> d * d + d" by linarith+
  have "- d \<le> x \<and> x \<le> d" "- d \<le> y \<and> y \<le> d" "- d \<le> z \<and> z \<le> d"
    by (rule abs_le_of_square [OF q(1) d(1)], rule abs_le_of_square [OF q(2) d(1)],
        rule abs_le_of_square [OF q(3) d(1)])
  then show ?thesis by (simp add: set_offsets)
qed

lemma set_kept_offsets:
  assumes "0 \<le> sint cy" "sint cy < sint (HEIGHT e)" "0 \<le> r"
  shows "set (kept_offsets e cy r) =
    {(x, y, z). 0 \<le> sint cy + y \<and> sint cy + y < sint (HEIGHT e) \<and>
       round_sqrt (x * x + y * y + z * z) \<le> r}"
proof (intro set_eqI iffI)
  fix t assume t: "t \<in> set (kept_offsets e cy r)"
  obtain x y z where [simp]: "t = (x, y, z)" by (cases t)
  from t consider "x = 0 \<and> y = 0 \<and> z = 0" | d where "1 \<le> d" "d \<le> r" "keeps e cy d (x, y, z)"
    by (auto simp: kept_offsets_def)
  then show "t \<in> {(x, y, z). 0 \<le> sint cy + y \<and> sint cy + y < sint (HEIGHT e) \<and>
       round_sqrt (x * x + y * y + z * z) \<le> r}"
  proof cases
    case 1
    then show ?thesis using assms by simp
  next
    case 2
    then show ?thesis by (auto simp: keeps_def)
  qed
next
  fix t assume t: "t \<in> {(x, y, z). 0 \<le> sint cy + y \<and> sint cy + y < sint (HEIGHT e) \<and>
       round_sqrt (x * x + y * y + z * z) \<le> r}"
  obtain x y z where [simp]: "t = (x, y, z)" by (cases t)
  define d where "d = round_sqrt (x * x + y * y + z * z)"
  from t have v: "0 \<le> sint cy + y" "sint cy + y < sint (HEIGHT e)" "d \<le> r" by (auto simp: d_def)
  have d0: "0 \<le> d" unfolding d_def by (rule round_sqrt_nonneg) (rule sum_squares_nonneg)
  show "t \<in> set (kept_offsets e cy r)"
  proof (cases "d = 0")
    case True
    then have "x * x + y * y + z * z = 0"
      using round_sqrt_eq_0_iff [OF sum_squares_nonneg, of x y z] by (simp add: d_def)
    then show ?thesis by (simp add: sum_squares_0 kept_offsets_def)
  next
    case False
    then have "1 \<le> d" using d0 by simp
    moreover have "(x, y, z) \<in> set (offsets d)" by (rule shell_in_cube) (simp add: d_def)
    moreover have "keeps e cy d (x, y, z)" using v by (simp add: keeps_def d_def)
    ultimately show ?thesis using v(3) by (auto simp: kept_offsets_def)
  qed
qed

lemma distinct_concat_map:
  assumes "distinct ds" and "\<And>d. d \<in> set ds \<Longrightarrow> distinct (f d)"
    and "\<And>d d'. d \<in> set ds \<Longrightarrow> d' \<in> set ds \<Longrightarrow> d \<noteq> d' \<Longrightarrow> set (f d) \<inter> set (f d') = {}"
  shows "distinct (concat (map f ds))"
  using assms
proof (induction ds)
  case Nil
  then show ?case by simp
next
  case (Cons d ds)
  have "distinct (concat (map f ds))" using Cons by auto
  moreover have "distinct (f d)" using Cons.prems by simp
  moreover have "set (f d) \<inter> set (f d') = {}" if "d' \<in> set ds" for d'
  proof -
    have "d \<noteq> d'" using Cons.prems(1) that by auto
    then show ?thesis using Cons.prems(3) [of d d'] that by simp
  qed
  ultimately show ?case by auto
qed

lemma distinct_kept_offsets: "distinct (kept_offsets e cy r)"
proof -
  have c: "distinct (concat (map (\<lambda>d. filter (keeps e cy d) (offsets d)) [1..r]))"
  proof (rule distinct_concat_map)
    show "distinct [1..r]" by simp
  next
    fix d show "distinct (filter (keeps e cy d) (offsets d))" by (simp add: distinct_offsets)
  next
    fix d d' :: int assume "d \<noteq> d'"
    have "\<not> (keeps e cy d t \<and> keeps e cy d' t)" for t
      using \<open>d \<noteq> d'\<close> by (cases t) (auto simp: keeps_def)
    then show "set (filter (keeps e cy d) (offsets d)) \<inter> set (filter (keeps e cy d') (offsets d')) = {}"
      by auto
  qed
  have "\<not> keeps e cy d (0, 0, 0)" if "1 \<le> d" for d
    using that by (simp add: keeps_def)
  then have "(0, 0, 0) \<notin> set (concat (map (\<lambda>d. filter (keeps e cy d) (offsets d)) [1..r]))"
    by auto
  with c show ?thesis by (simp add: kept_offsets_def)
qed

section \<open>The visible list built by setPosition\<close>

lemma visible_coords_update [simp]:
  "visible_coords (w\<lparr>cen_x := c1\<rparr>) = visible_coords w"
  "visible_coords (w\<lparr>cen_y := c2\<rparr>) = visible_coords w"
  "visible_coords (w\<lparr>cen_z := c3\<rparr>) = visible_coords w"
  "visible_coords (w\<lparr>loaded := ld\<rparr>) = visible_coords w"
  by (simp_all add: visible_coords_def)

lemma live_below_store: "coordOf w p \<noteq> None \<Longrightarrow> p < length (store w)"
  by (auto simp: coordOf_def deref_def split: if_splits)

lemma visible_coords_setChunkVisible:
  assumes "None \<notin> set (visible_coords w)"
  shows "visible_coords (setChunkVisible e x y z w) = visible_coords w @ [Some (x, y, z)]"
proof (cases "findChunk w x y z")
  case None
  have old: "p \<noteq> length (store w)" if "p \<in> set (visible_chunks w)" for p
  proof -
    from that have "coordOf w p \<in> set (visible_coords w)" by (simp add: visible_coords_def)
    with assms have "coordOf w p \<noteq> None" by metis
    then show ?thesis using live_below_store by fastforce
  qed
  show ?thesis
    unfolding setChunkVisible_generate [OF None]
    using old by (simp add: visible_coords_def coordOf_generateChunk)
next
  case (Some pc)
  obtain p c where pc: "pc = (p, c)" by (cases pc)
  from Some pc findChunk_Some [of w x y z p c] have "coordOf w p = Some (x, y, z)"
    by (simp add: coordOf_def)
  then show ?thesis using Some pc
    by (simp add: setChunkVisible_found visible_coords_def)
qed

lemma field_of_view_setChunkVisible [simp]:
  "field_of_view (setChunkVisible e x y z w) = field_of_view w"
proof (cases "findChunk w x y z")
  case None
  show ?thesis unfolding setChunkVisible_generate [OF None] by simp
next
  case (Some pc)
  then show ?thesis by (cases pc) (simp add: setChunkVisible_found)
qed

lemma visit_eq:
  "visit e cx cy cz d t w =
     (if keeps e cy d t
      then setChunkVisible e (fst (shift cx cy cz t)) (fst (snd (shift cx cy cz t)))
             (snd (snd (shift cx cy cz t))) w
      else w)"
  by (cases t) (auto simp: visit_def keeps_def shift_def)

lemma visible_coords_fold_visit:
  "None \<notin> set (visible_coords w) \<Longrightarrow>
   visible_coords (fold (visit e cx cy cz d) ts w) =
     visible_coords w @ map (\<lambda>t. Some (shift cx cy cz t)) (filter (keeps e cy d) ts)"
proof (induction ts arbitrary: w)
  case Nil
  then show ?case by simp
next
  case (Cons t ts)
  show ?case
  proof (cases "keeps e cy d t")
    case True
    define w1 where "w1 = visit e cx cy cz d t w"
    have v: "visible_coords w1 = visible_coords w @ [Some (shift cx cy cz t)]"
      unfolding w1_def visit_eq using True Cons.prems
      by (simp add: visible_coords_setChunkVisible)
    then have "None \<notin> set (visible_coords w1)" using Cons.prems by simp
    from Cons.IH [OF this] show ?thesis using True v by (simp add: w1_def)
  next
    case False
    then have "visit e cx cy cz d t w = w" by (simp add: visit_eq)
    with Cons False show ?thesis by simp
  qed
qed

lemma visible_coords_fold_shell:
  "None \<notin> set (visible_coords w) \<Longrightarrow>
   visible_coords (fold (shell e cx cy cz) ds w) =
     visible_coords w @
     map (\<lambda>t. Some (shift cx cy cz t)) (concat (map (\<lambda>d. filter (keeps e cy d) (offsets d)) ds))"
proof (induction ds arbitrary: w)
  case Nil
  then show ?case by simp
next
  case (Cons d ds)
  have v: "visible_coords (shell e cx cy cz d w) =
      visible_coords w @ map (\<lambda>t. Some (shift cx cy cz t)) (filter (keeps e cy d) (offsets d))"
    unfolding shell_def using Cons.prems by (rule visible_coords_fold_visit)
  then have "None \<notin> set (visible_coords (shell e cx cy cz d w))" using Cons.prems by auto
  from Cons.IH [OF this] show ?case using v by simp
qed

lemma field_of_view_fold_visit [simp]:
  "field_of_view (fold (visit e cx cy cz d) ts w) = field_of_view w"
  by (induction ts arbitrary: w) (simp_all add: visit_eq)

lemma visible_coords_setPosition:
  assumes "\<not> loaded w \<or> (cx \<noteq> cen_x w \<or> cy \<noteq> cen_y w \<or> cz \<noteq> cen_z w)"
    and "cx = getChunk (toBlockCoord e x)"
    and "cy = std_max 0 (std_min (getChunk (toBlockCoord e y)) (HEIGHT e - 1))"
    and "cz = getChunk (toBlockCoord e z)"
  shows "visible_coords (setPosition e x y z w) =
     map (\<lambda>t. Some (shift cx cy cz t)) (kept_offsets e cy (sint (field_of_view w)))"
proof -
  define w1 where "w1 = w\<lparr>visible_chunks := []\<rparr>"
  define w2 where "w2 = setChunkVisible e cx cy cz w1"
  have e1: "visible_coords w1 = []" by (simp add: w1_def visible_coords_def)
  have e2: "visible_coords w2 = [Some (cx, cy, cz)]"
    unfolding w2_def using e1 by (simp add: visible_coords_setChunkVisible)
  have f2: "field_of_view w2 = field_of_view w" by (simp add: w2_def w1_def)
  have s: "setPosition e x y z w =
     (fold (shell e cx cy cz) [1..sint (field_of_view w2)] w2)
       \<lparr>cen_x := cx, cen_y := cy, cen_z := cz, loaded := True\<rparr>"
    using assms by (simp add: setPosition_def Let_def w2_def w1_def)
  have z: "shift cx cy cz (0, 0, 0) = (cx, cy, cz)" by (simp add: shift_def)
  show ?thesis
    unfolding s using e2
    by (simp add: visible_coords_fold_shell f2 kept_offsets_def z)
qed

section \<open>Machine arithmetic of chunk coordinates\<close>

lemma sint_bounds: "- 2147483648 \<le> sint (a::cint)" "sint (a::cint) < 2147483648"
  using sint_ge [of a] sint_lt [of a] by simp_all

lemma sint_add_small:
  assumes "- 2147483648 \<le> sint a + i" "sint a + i < 2147483648"
  shows "sint (a + word_of_int i :: cint) = sint a + i"
proof -
  have "a + word_of_int i = (word_of_int (sint a + i) :: cint)" by simp
  moreover have "sint (word_of_int (sint a + i) :: cint) = sint a + i"
  proof -
    have "signed_take_bit 31 (sint a + i) = sint a + i"
      using assms by (intro signed_take_bit_int_eq_self) simp_all
    then show ?thesis by (simp only: sint_sbintrunc') simp
  qed
  ultimately show ?thesis by simp
qed

lemma sint_HEIGHT_minus_1:
  assumes "1 \<le> sint (h::cint)"
  shows "sint (h - 1) = sint h - 1"
proof -
  have "h - 1 = h + word_of_int (- 1)" by simp
  moreover have "sint (h + word_of_int (- 1)) = sint h + (- 1)"
    using assms sint_bounds [of h] by (intro sint_add_small) simp_all
  ultimately show ?thesis by simp
qed

lemma clamp_range:
  assumes "1 \<le> sint (h::cint)"
  shows "0 \<le> sint (std_max 0 (std_min c (h - 1))) \<and> sint (std_max 0 (std_min c (h - 1))) < sint h"
  using assms sint_HEIGHT_minus_1 [OF assms]
  by (auto simp: std_max_def std_min_def)

lemma getChunk_bounds: "- 268435456 \<le> sint (getChunk v)" "sint (getChunk v) < 268435456"
  using sint_bounds [of v] by (simp_all add: sint_getChunk)

lemma word_of_int_diff_sint: "a + word_of_int (sint b - sint a) = (b::cint)"
  by simp

lemma word_of_int_inj_small:
  assumes "- 2147483648 \<le> i" "i < 2147483648" "- 2147483648 \<le> j" "j < 2147483648"
    and "(word_of_int i :: cint) = word_of_int j"
  shows "i = j"
proof -
  have "signed_take_bit 31 i = i" "signed_take_bit 31 j = j"
    using assms(1-4) by (simp_all add: signed_take_bit_int_eq_self)
  moreover have "sint (word_of_int i :: cint) = sint (word_of_int j :: cint)"
    using assms(5) by simp
  ultimately show ?thesis by (simp only: sint_sbintrunc') simp
qed

lemma kept_offsets_bounded:
  assumes "(x, y, z) \<in> set (kept_offsets e cy r)" "0 \<le> r"
  shows "- r \<le> x \<and> x \<le> r \<and> - r \<le> y \<and> y \<le> r \<and> - r \<le> z \<and> z \<le> r"
proof -
  from assms(1) consider "x = 0 \<and> y = 0 \<and> z = 0"
    | d where "1 \<le> d" "d \<le> r" "(x, y, z) \<in> set (offsets d)"
    by (auto simp: kept_offsets_def)
  then show ?thesis
  proof cases
    case 1
    then show ?thesis using assms(2) by simp
  next
    case 2
    from 2(3) have "- d \<le> x \<and> x \<le> d \<and> - d \<le> y \<and> y \<le> d \<and> - d \<le> z \<and> z \<le> d"
      by (simp add: set_offsets)
    with 2(2) show ?thesis by linarith
  qed
qed

text \<open>
  C4.  Let \<open>setPosition\<close> recompute the visible list (the world is not loaded, or the
  clamped chunk coordinate \<open>(cx, cy, cz)\<close> of the position differs from the centre), with
  \<open>HEIGHT\<close> at least 1 and a view radius \<open>R\<close> between 0 and 26754 (beyond that
  \<^verbatim>\<open>x*x + y*y + z*z\<close> overflows).  Afterwards every visible pointer is live, the
  coordinates of the visible chunks are exactly the chunk coordinates whose rounded
  Euclidean distance from \<open>(cx, cy, cz)\<close> is at most \<open>R\<close> and whose vertical index lies
  in \<open>[0, HEIGHT - 1]\<close>, and no coordinate and no pointer occurs twice in the visible
  list.
\<close>

theorem visibility_shell:
  assumes recompute: "\<not> loaded w \<or> (cx \<noteq> cen_x w \<or> cy \<noteq> cen_y w \<or> cz \<noteq> cen_z w)"
    and cx: "cx = getChunk (toBlockCoord e x)"
    and cy: "cy = std_max 0 (std_min (getChunk (toBlockCoord e y)) (HEIGHT e - 1))"
    and cz: "cz = getChunk (toBlockCoord e z)"
    and h: "1 \<le> sint (HEIGHT e)"
    and r0: "0 \<le> sint (field_of_view w)"
    and r1: "sint (field_of_view w) \<le> 26754"
  shows "None \<notin> set (visible_coords (setPosition e x y z w)) \<and>
    {k. Some k \<in> set (visible_coords (setPosition e x y z w))} =
      {(a, b, c).
         round_sqrt ((sint a - sint cx) * (sint a - sint cx) + (sint b - sint cy) * (sint b - sint cy) +
                     (sint c - sint cz) * (sint c - sint cz)) \<le> sint (field_of_view w) \<and>
         0 \<le> sint b \<and> sint b < sint (HEIGHT e)} \<and>
    distinct (visible_coords (setPosition e x y z w)) \<and>
    distinct (visible_chunks (setPosition e x y z w))"
proof -
  define R where "R = sint (field_of_view w)"
  define K where "K = kept_offsets e cy R"
  have v: "visible_coords (setPosition e x y z w) = map (\<lambda>t. Some (shift cx cy cz t)) K"
    unfolding K_def R_def by (rule visible_coords_setPosition [OF recompute cx cy cz])
  have cyr: "0 \<le> sint cy" "sint cy < sint (HEIGHT e)"
    using clamp_range [OF h, of "getChunk (toBlockCoord e y)"] by (simp_all add: cy)
  have cxb: "- 268435456 \<le> sint cx" "sint cx < 268435456"
    using getChunk_bounds [of "toBlockCoord e x"] by (simp_all add: cx)
  have czb: "- 268435456 \<le> sint cz" "sint cz < 268435456"
    using getChunk_bounds [of "toBlockCoord e z"] by (simp_all add: cz)
  have setK: "set K = {(x, y, z). 0 \<le> sint cy + y \<and> sint cy + y < sint (HEIGHT e) \<and>
       round_sqrt (x * x + y * y + z * z) \<le> R}"
    unfolding K_def using cyr r0 by (intro set_kept_offsets) (simp_all add: R_def)
  have bnd: "- R \<le> x \<and> x \<le> R \<and> - R \<le> y \<and> y \<le> R \<and> - R \<le> z \<and> z \<le> R"
    if "(x, y, z) \<in> set K" for x y z
    using that r0 unfolding K_def R_def by (intro kept_offsets_bounded) simp_all
  have Rb: "R \<le> 26754" "0 \<le> R" using r0 r1 by (simp_all add: R_def)
  have hb: "sint (HEIGHT e) < 2147483648" by (rule sint_bounds)
  have sh: "shift cx cy cz (x, y, z) = (a, b, c) \<Longrightarrow>
      sint a = sint cx + x \<and> sint b = sint cy + y \<and> sint c = sint cz + z"
    if t: "(x, y, z) \<in> set K" for x y z a b c
  proof -
    assume s: "shift cx cy cz (x, y, z) = (a, b, c)"
    from bnd [OF t] Rb have xb: "- 26754 \<le> x" "x \<le> 26754" "- 26754 \<le> z" "z \<le> 26754" by linarith+
    from t setK have yb: "0 \<le> sint cy + y" "sint cy + y < sint (HEIGHT e)" by auto
    have "sint (cx + word_of_int x) = sint cx + x"
      using cxb xb by (intro sint_add_small) linarith+
    moreover have "sint (cy + word_of_int y) = sint cy + y"
      using yb hb by (intro sint_add_small) linarith+
    moreover have "sint (cz + word_of_int z) = sint cz + z"
      using czb xb by (intro sint_add_small) linarith+
    ultimately show ?thesis using s by (auto simp: shift_def)
  qed
  have inj: "inj_on (shift cx cy cz) (set K)"
  proof (rule inj_onI)
    fix t t' assume t: "t \<in> set K" and t': "t' \<in> set K" and e: "shift cx cy cz t = shift cx cy cz t'"
    obtain x y z where [simp]: "t = (x, y, z)" by (cases t)
    obtain x' y' z' where [simp]: "t' = (x', y', z')" by (cases t')
    obtain a b c where s: "shift cx cy cz (x, y, z) = (a, b, c)" by (cases "shift cx cy cz (x, y, z)")
    from sh [of x y z a b c] t s have 1: "sint a = sint cx + x \<and> sint b = sint cy + y \<and> sint c = sint cz + z"
      by simp
    from sh [of x' y' z' a b c] t' s e have 2: "sint a = sint cx + x' \<and> sint b = sint cy + y' \<and> sint c = sint cz + z'"
      by simp
    from 1 2 show "t = t'" by simp
  qed
  have img: "shift cx cy cz ` set K =
      {(a, b, c).
         round_sqrt ((sint a - sint cx) * (sint a - sint cx) + (sint b - sint cy) * (sint b - sint cy) +
                     (sint c - sint cz) * (sint c - sint cz)) \<le> R \<and>
         0 \<le> sint b \<and> sint b < sint (HEIGHT e)}" (is "?L = ?Rs")
  proof (intro set_eqI iffI)
    fix k assume "k \<in> ?L"
    then obtain t where t: "t \<in> set K" and k: "k = shift cx cy cz t" by auto
    obtain x y z where [simp]: "t = (x, y, z)" by (cases t)
    obtain a b c where [simp]: "k = (a, b, c)" by (cases k)
    from sh [of x y z a b c] t k
    have s: "sint a = sint cx + x" "sint b = sint cy + y" "sint c = sint cz + z" by simp_all
    from t setK have "0 \<le> sint cy + y \<and> sint cy + y < sint (HEIGHT e) \<and>
       round_sqrt (x * x + y * y + z * z) \<le> R" by simp
    then show "k \<in> ?Rs" by (simp add: s)
  next
    fix k assume kr: "k \<in> ?Rs"
    obtain a b c where [simp]: "k = (a, b, c)" by (cases k)
    define t where "t = (sint a - sint cx, sint b - sint cy, sint c - sint cz)"
    have "t \<in> set K" using kr unfolding setK t_def by simp
    moreover have "shift cx cy cz t = k" by (simp add: shift_def t_def)
    ultimately show "k \<in> ?L" by force
  qed
  have dK: "distinct K" unfolding K_def by (rule distinct_kept_offsets)
  have d1: "distinct (visible_coords (setPosition e x y z w))"
    unfolding v using dK inj by (simp add: distinct_map inj_on_def)
  have d2: "distinct (visible_chunks (setPosition e x y z w))"
    using d1 unfolding visible_coords_def by (simp add: distinct_map)
  have n: "None \<notin> set (visible_coords (setPosition e x y z w))"
    unfolding v by auto
  have s: "{k. Some k \<in> set (visible_coords (setPosition e x y z w))} = shift cx cy cz ` set K"
    unfolding v by auto
  show ?thesis using n d1 d2 unfolding s img R_def by simp
qed

theorem visibility_shell_witness:
  "\<not> loaded toy_world \<and> 1 \<le> sint (HEIGHT toy_env) \<and>
   0 \<le> sint (field_of_view toy_world) \<and> sint (field_of_view toy_world) \<le> 26754 \<and>
   None \<notin> set (visible_coords (setPosition toy_env 0 0 0 toy_world)) \<and>
   distinct (visible_coords (setPosition toy_env 0 0 0 toy_world)) \<and>
   distinct (visible_chunks (setPosition toy_env 0 0 0 toy_world)) \<and>
   Some (1, 0, 0) \<in> set (visible_coords (setPosition toy_env 0 0 0 toy_world)) \<and>
   Some (1, 1, 1) \<notin> set (visible_coords (setPosition toy_env 0 0 0 toy_world)) \<and>
   Some (0, - 1, 0) \<notin> set (visible_coords (setPosition toy_env 0 0 0 toy_world))"
proof -
  have a: "\<not> loaded toy_world \<or> ((0::cint) \<noteq> cen_x toy_world \<or> (0::cint) \<noteq> cen_y toy_world \<or>
      (0::cint) \<noteq> cen_z toy_world)"
    by (simp add: toy_world_def)
  have b: "(0::cint) = getChunk (toBlockCoord toy_env 0)"
    by (simp add: toy_env_def getChunk_def)
  have c: "(0::cint) = std_max 0 (std_min (getChunk (toBlockCoord toy_env 0)) (HEIGHT toy_env - 1))"
    by (simp add: toy_env_def getChunk_def std_max_def std_min_def)
  have h: "1 \<le> sint (HEIGHT toy_env)" by (simp add: toy_env_def)
  have r: "0 \<le> sint (field_of_view toy_world)" "sint (field_of_view toy_world) \<le> 26754"
    by (simp_all add: toy_world_def)
  have q: "round_sqrt 1 = 1" "round_sqrt 3 = 2" by code_simp+
  note t = visibility_shell [OF a b c b h r]
  from t have m: "Some k \<in> set (visible_coords (setPosition toy_env 0 0 0 toy_world)) \<longleftrightarrow>
      k \<in> {(a, b, c).
         round_sqrt ((sint a - sint (0::cint)) * (sint a - sint (0::cint)) +
                     (sint b - sint (0::cint)) * (sint b - sint (0::cint)) +
                     (sint c - sint (0::cint)) * (sint c - sint (0::cint)))
           \<le> sint (field_of_view toy_world) \<and>
         0 \<le> sint b \<and> sint b < sint (HEIGHT toy_env)}" for k
    by blast
  have "\<not> loaded toy_world" by (simp add: toy_world_def)
  moreover have "Some (1, 0, 0) \<in> set (visible_coords (setPosition toy_env 0 0 0 toy_world))"
    unfolding m by (simp add: q toy_world_def toy_env_def)
  moreover have "Some (1, 1, 1) \<notin> set (visible_coords (setPosition toy_env 0 0 0 toy_world))"
    unfolding m by (simp add: q toy_world_def toy_env_def)
  moreover have "Some (0, - 1, 0) \<notin> set (visible_coords (setPosition toy_env 0 0 0 toy_world))"
    unfolding m by (simp add: q toy_world_def toy_env_def)
  ultimately show ?thesis using t h r by simp
qed

end
